theory Spec2Isabelle
  imports Main "HOL-Library.Multiset"
begin

section \<open>The cube state\<close>

text \<open>
  \<^verbatim>\<open>class Face(Enum)\<close>: the six faces, in the order of the enumeration.
\<close>

datatype face = FRONT | BACK | LEFT | RIGHT | UP | DOWN

text \<open>
  \<^verbatim>\<open>class RubiksCube\<close>: \<open>faces\<close> is the dictionary from \<open>face\<close> to a list of rows, each
  row a list of one-character colour strings; all six keys are present from \<open>__init__\<close> on,
  so the dictionary is a total function. \<open>move_history\<close> is the list of move strings.
\<close>

record cube =
  faces :: "face \<Rightarrow> char list list"
  move_history :: "string list"

text \<open>
  Every grid the program builds is 3 by 3 (\<open>__init__\<close>, \<open>copy\<close>), and the moves index
  rows and columns 0..2. On any other shape Python raises \<open>IndexError\<close>, where
  \<open>xs ! i\<close> and \<open>xs[i := v]\<close> below are unspecified or silent; the theorems are therefore
  stated for grids that satisfy \<open>wf_cube\<close>.
\<close>

definition wf_face :: "char list list \<Rightarrow> bool" where
  "wf_face g = (length g = 3 \<and> list_all (\<lambda>row. length row = 3) g)"

definition wf_cube :: "cube \<Rightarrow> bool" where
  "wf_cube s = list_all (\<lambda>f. wf_face (faces s f)) [FRONT, BACK, LEFT, RIGHT, UP, DOWN]"

text \<open>\<^verbatim>\<open>RubiksCube.__init__\<close>: the solved cube with an empty history.\<close>

definition solved_faces :: "face \<Rightarrow> char list list" where
  "solved_faces f =
     (case f of
        FRONT \<Rightarrow> replicate 3 (replicate 3 CHR ''G'')
      | BACK \<Rightarrow> replicate 3 (replicate 3 CHR ''B'')
      | LEFT \<Rightarrow> replicate 3 (replicate 3 CHR ''O'')
      | RIGHT \<Rightarrow> replicate 3 (replicate 3 CHR ''R'')
      | UP \<Rightarrow> replicate 3 (replicate 3 CHR ''W'')
      | DOWN \<Rightarrow> replicate 3 (replicate 3 CHR ''Y''))"

definition init_cube :: cube where
  "init_cube = \<lparr>faces = solved_faces, move_history = []\<rparr>"

text \<open>
  \<^verbatim>\<open>copy\<close>: a new cube whose rows are fresh copies of the rows (\<open>row[:]\<close>) and whose
  history is a copy of the history. As values, the copy equals the original.
\<close>

definition copy :: "cube \<Rightarrow> cube" where
  "copy s =
     fold (\<lambda>f new_cube. new_cube\<lparr>faces := (faces new_cube)(f := map (\<lambda>row. row) (faces s f))\<rparr>)
       [FRONT, BACK, LEFT, RIGHT, UP, DOWN]
       (init_cube\<lparr>move_history := move_history s\<rparr>)"

text \<open>
  \<^verbatim>\<open>get_state_string\<close>: the three nested loops, appending one colour at a time.
\<close>

definition get_state_string :: "cube \<Rightarrow> string" where
  "get_state_string s =
     fold (\<lambda>f state. fold (\<lambda>row state. fold (\<lambda>col state. state @ [col]) row state)
                         (faces s f) state)
       [UP, RIGHT, FRONT, DOWN, LEFT, BACK] []"

text \<open>
  \<^verbatim>\<open>is_solved\<close>: the loops over \<open>target_colors.items()\<close> (in insertion order), the rows
  and the colours, returning False at the first colour that differs.
\<close>

definition target_colors :: "(face \<times> char) list" where
  "target_colors =
     [(FRONT, CHR ''G''), (BACK, CHR ''B''), (LEFT, CHR ''O''),
      (RIGHT, CHR ''R''), (UP, CHR ''W''), (DOWN, CHR ''Y'')]"

fun row_is :: "char \<Rightarrow> char list \<Rightarrow> bool" where
  "row_is target_color [] = True"
| "row_is target_color (color # rest) =
     (if color \<noteq> target_color then False else row_is target_color rest)"

fun rows_are :: "char \<Rightarrow> char list list \<Rightarrow> bool" where
  "rows_are target_color [] = True"
| "rows_are target_color (row # rest) =
     (if \<not> row_is target_color row then False else rows_are target_color rest)"

fun faces_are :: "(face \<Rightarrow> char list list) \<Rightarrow> (face \<times> char) list \<Rightarrow> bool" where
  "faces_are fs [] = True"
| "faces_are fs ((f, target_color) # rest) =
     (if \<not> rows_are target_color (fs f) then False else faces_are fs rest)"

definition is_solved :: "cube \<Rightarrow> bool" where
  "is_solved s = faces_are (faces s) target_colors"

section \<open>The moves\<close>

text \<open>
  \<open>set_cell g r c v\<close> is the assignment \<^verbatim>\<open>g[r][c] = v\<close>.
\<close>

definition set_cell :: "char list list \<Rightarrow> nat \<Rightarrow> nat \<Rightarrow> char \<Rightarrow> char list list" where
  "set_cell g r c v = g[r := (g ! r)[c := v]]"

definition rotate_face_clockwise :: "cube \<Rightarrow> face \<Rightarrow> cube" where
  "rotate_face_clockwise s f =
     (let old_face = map (\<lambda>row. row) (faces s f)
      in s\<lparr>faces := (faces s)(f :=
           fold (\<lambda>i g. fold (\<lambda>j g. set_cell g j (2 - i) (old_face ! i ! j)) [0..<3] g)
             [0..<3] (faces s f))\<rparr>)"

definition rotate_face_counterclockwise :: "cube \<Rightarrow> face \<Rightarrow> cube" where
  "rotate_face_counterclockwise s f =
     fold (\<lambda>_ s. rotate_face_clockwise s f) [0..<3] s"

definition get_row :: "cube \<Rightarrow> face \<Rightarrow> nat \<Rightarrow> char list" where
  "get_row s f row_idx = faces s f ! row_idx"

definition get_col :: "cube \<Rightarrow> face \<Rightarrow> nat \<Rightarrow> char list" where
  "get_col s f col_idx = map (\<lambda>i. faces s f ! i ! col_idx) [0..<3]"

definition set_row :: "cube \<Rightarrow> face \<Rightarrow> nat \<Rightarrow> char list \<Rightarrow> cube" where
  "set_row s f row_idx values =
     s\<lparr>faces := (faces s)(f :=
         fold (\<lambda>(i, val) g. set_cell g row_idx i val) (enumerate 0 values) (faces s f))\<rparr>"

definition set_col :: "cube \<Rightarrow> face \<Rightarrow> nat \<Rightarrow> char list \<Rightarrow> cube" where
  "set_col s f col_idx values =
     s\<lparr>faces := (faces s)(f :=
         fold (\<lambda>(i, val) g. set_cell g i col_idx val) (enumerate 0 values) (faces s f))\<rparr>"

definition rotate_front :: "cube \<Rightarrow> bool \<Rightarrow> cube" where
  "rotate_front s clockwise =
     (if clockwise then
        (let s = rotate_face_clockwise s FRONT;
             temp = get_row s UP 2;
             s = set_row s UP 2 (rev (get_col s LEFT 2));
             s = set_col s LEFT 2 (get_row s DOWN 0);
             s = set_row s DOWN 0 (rev (get_col s RIGHT 0));
             s = set_col s RIGHT 0 temp
         in s)
      else
        (let s = rotate_face_counterclockwise s FRONT;
             temp = get_row s UP 2;
             s = set_row s UP 2 (get_col s RIGHT 0);
             s = set_col s RIGHT 0 (rev (get_row s DOWN 0));
             s = set_row s DOWN 0 (get_col s LEFT 2);
             s = set_col s LEFT 2 (rev temp)
         in s))"

definition rotate_right :: "cube \<Rightarrow> bool \<Rightarrow> cube" where
  "rotate_right s clockwise =
     (if clockwise then
        (let s = rotate_face_clockwise s RIGHT;
             temp = get_col s UP 2;
             s = set_col s UP 2 (get_col s FRONT 2);
             s = set_col s FRONT 2 (get_col s DOWN 2);
             s = set_col s DOWN 2 (rev (get_col s BACK 0));
             s = set_col s BACK 0 (rev temp)
         in s)
      else
        (let s = rotate_face_counterclockwise s RIGHT;
             temp = get_col s UP 2;
             s = set_col s UP 2 (rev (get_col s BACK 0));
             s = set_col s BACK 0 (rev (get_col s DOWN 2));
             s = set_col s DOWN 2 (get_col s FRONT 2);
             s = set_col s FRONT 2 temp
         in s))"

definition rotate_up :: "cube \<Rightarrow> bool \<Rightarrow> cube" where
  "rotate_up s clockwise =
     (if clockwise then
        (let s = rotate_face_clockwise s UP;
             temp = get_row s FRONT 0;
             s = set_row s FRONT 0 (get_row s RIGHT 0);
             s = set_row s RIGHT 0 (get_row s BACK 0);
             s = set_row s BACK 0 (get_row s LEFT 0);
             s = set_row s LEFT 0 temp
         in s)
      else
        (let s = rotate_face_counterclockwise s UP;
             temp = get_row s FRONT 0;
             s = set_row s FRONT 0 (get_row s LEFT 0);
             s = set_row s LEFT 0 (get_row s BACK 0);
             s = set_row s BACK 0 (get_row s RIGHT 0);
             s = set_row s RIGHT 0 temp
         in s))"

definition rotate_left :: "cube \<Rightarrow> bool \<Rightarrow> cube" where
  "rotate_left s clockwise =
     (if clockwise then
        (let s = rotate_face_clockwise s LEFT;
             temp = get_col s UP 0;
             s = set_col s UP 0 (rev (get_col s BACK 2));
             s = set_col s BACK 2 (rev (get_col s DOWN 0));
             s = set_col s DOWN 0 (get_col s FRONT 0);
             s = set_col s FRONT 0 temp
         in s)
      else
        (let s = rotate_face_counterclockwise s LEFT;
             temp = get_col s UP 0;
             s = set_col s UP 0 (get_col s FRONT 0);
             s = set_col s FRONT 0 (get_col s DOWN 0);
             s = set_col s DOWN 0 (rev (get_col s BACK 2));
             s = set_col s BACK 2 (rev temp)
         in s))"

definition rotate_down :: "cube \<Rightarrow> bool \<Rightarrow> cube" where
  "rotate_down s clockwise =
     (if clockwise then
        (let s = rotate_face_clockwise s DOWN;
             temp = get_row s FRONT 2;
             s = set_row s FRONT 2 (get_row s LEFT 2);
             s = set_row s LEFT 2 (get_row s BACK 2);
             s = set_row s BACK 2 (get_row s RIGHT 2);
             s = set_row s RIGHT 2 temp
         in s)
      else
        (let s = rotate_face_counterclockwise s DOWN;
             temp = get_row s FRONT 2;
             s = set_row s FRONT 2 (get_row s RIGHT 2);
             s = set_row s RIGHT 2 (get_row s BACK 2);
             s = set_row s BACK 2 (get_row s LEFT 2);
             s = set_row s LEFT 2 temp
         in s))"

definition rotate_back :: "cube \<Rightarrow> bool \<Rightarrow> cube" where
  "rotate_back s clockwise =
     (if clockwise then
        (let s = rotate_face_clockwise s BACK;
             temp = get_row s UP 0;
             s = set_row s UP 0 (get_col s RIGHT 2);
             s = set_col s RIGHT 2 (rev (get_row s DOWN 2));
             s = set_row s DOWN 2 (get_col s LEFT 0);
             s = set_col s LEFT 0 (rev temp)
         in s)
      else
        (let s = rotate_face_counterclockwise s BACK;
             temp = get_row s UP 0;
             s = set_row s UP 0 (rev (get_col s LEFT 0));
             s = set_col s LEFT 0 (get_row s DOWN 2);
             s = set_row s DOWN 2 (rev (get_col s RIGHT 2));
             s = set_col s RIGHT 2 temp
         in s))"

text \<open>
  \<^verbatim>\<open>apply_move\<close>: \<open>move_map\<close> is the dictionary of the twelve tokens; a string that is
  not a key changes nothing. The rotation is looked up by name and called with the
  direction; the move is appended to the history when \<open>track_history\<close> is set.
\<close>

datatype rotation = Rotate_front | Rotate_right | Rotate_up | Rotate_left | Rotate_down | Rotate_back

definition move_map :: "(string \<times> rotation \<times> bool) list" where
  "move_map =
     [(''F'', Rotate_front, True), ([CHR ''F'', CHR 0x27], Rotate_front, False),
      (''R'', Rotate_right, True), ([CHR ''R'', CHR 0x27], Rotate_right, False),
      (''U'', Rotate_up, True), ([CHR ''U'', CHR 0x27], Rotate_up, False),
      (''L'', Rotate_left, True), ([CHR ''L'', CHR 0x27], Rotate_left, False),
      (''D'', Rotate_down, True), ([CHR ''D'', CHR 0x27], Rotate_down, False),
      (''B'', Rotate_back, True), ([CHR ''B'', CHR 0x27], Rotate_back, False)]"

fun call_rotation :: "rotation \<Rightarrow> cube \<Rightarrow> bool \<Rightarrow> cube" where
  "call_rotation Rotate_front s clockwise = rotate_front s clockwise"
| "call_rotation Rotate_right s clockwise = rotate_right s clockwise"
| "call_rotation Rotate_up s clockwise = rotate_up s clockwise"
| "call_rotation Rotate_left s clockwise = rotate_left s clockwise"
| "call_rotation Rotate_down s clockwise = rotate_down s clockwise"
| "call_rotation Rotate_back s clockwise = rotate_back s clockwise"

definition apply_move :: "cube \<Rightarrow> string \<Rightarrow> bool \<Rightarrow> cube" where
  "apply_move s move track_history =
     (case map_of move_map move of
        None \<Rightarrow> s
      | Some (func_name, clockwise) \<Rightarrow>
          (let s = call_rotation func_name s clockwise
           in if track_history then s\<lparr>move_history := move_history s @ [move]\<rparr> else s))"

text \<open>\<^verbatim>\<open>get_reverse_move\<close>: drop a final prime, or add one.\<close>

definition get_reverse_move :: "string \<Rightarrow> string" where
  "get_reverse_move move =
     (if move \<noteq> [] \<and> last move = CHR 0x27 then butlast move else move @ [CHR 0x27])"

text \<open>
  \<^verbatim>\<open>get_perfect_solution\<close>: the inverse of every move of the history, last move first.
\<close>

definition get_perfect_solution :: "cube \<Rightarrow> string list" where
  "get_perfect_solution s =
     (if move_history s = [] then []
      else fold (\<lambda>move solution. solution @ [get_reverse_move move]) (rev (move_history s)) [])"

text \<open>The twelve canonical tokens, in the order of \<^verbatim>\<open>CubeSolver.moves\<close>.\<close>

definition moves :: "string list" where
  "moves = [''F'', [CHR ''F'', CHR 0x27], ''R'', [CHR ''R'', CHR 0x27], ''U'', [CHR ''U'', CHR 0x27],
            ''L'', [CHR ''L'', CHR 0x27], ''D'', [CHR ''D'', CHR 0x27], ''B'', [CHR ''B'', CHR 0x27]]"

definition mk :: "char list list \<Rightarrow> char list list \<Rightarrow> char list list \<Rightarrow> char list list \<Rightarrow>
    char list list \<Rightarrow> char list list \<Rightarrow> string list \<Rightarrow> cube" where
  "mk F B L R U D h =
     \<lparr>faces = (\<lambda>f. case f of FRONT \<Rightarrow> F | BACK \<Rightarrow> B | LEFT \<Rightarrow> L | RIGHT \<Rightarrow> R | UP \<Rightarrow> U | DOWN \<Rightarrow> D),
      move_history = h\<rparr>"

section \<open>Replaying a solution, reachable states, facelets\<close>

text \<open>
  The verification loop of \<^verbatim>\<open>solve_cube\<close>,
  \<^verbatim>\<open>for move in solution: test_cube.apply_move(move, track_history=False)\<close>.
\<close>

definition replay :: "cube \<Rightarrow> string list \<Rightarrow> cube" where
  "replay test_cube solution = fold (\<lambda>move c. apply_move c move False) solution test_cube"

text \<open>
  The states reachable from the solved cube of \<^verbatim>\<open>__init__\<close> by canonical moves, tracked
  in the history or not.
\<close>

inductive reachable :: "cube \<Rightarrow> bool" where
  reachable_init: "reachable init_cube"
| reachable_move: "reachable s \<Longrightarrow> m \<in> set moves \<Longrightarrow> reachable (apply_move s m t)"

text \<open>The 54 facelets of a cube, face by face in the order of the enumeration.\<close>

definition facelets :: "cube \<Rightarrow> char list" where
  "facelets s = concat (map (\<lambda>f. concat (faces s f)) [FRONT, BACK, LEFT, RIGHT, UP, DOWN])"

text \<open>The cube with the six given grids and the given history.\<close>

section \<open>The solver\<close>

subsection \<open>The external solver\<close>

text \<open>
  The module imports \<^verbatim>\<open>kociemba\<close> when it is installed: \<open>kociemba_available\<close> is the flag
  \<^verbatim>\<open>KOCIEMBA_AVAILABLE\<close>, and \<open>kociemba_solve\<close> is the library's \<^verbatim>\<open>kociemba.solve\<close>,
  a parameter of the model: given the facelet string it returns a string or raises.
  Strings are lists of characters below 256.

  What is raised: \<open>Exception message\<close> stands for an instance of \<^verbatim>\<open>Exception\<close> or of one of
  its subclasses; \<^verbatim>\<open>KeyboardInterrupt\<close>, \<^verbatim>\<open>SystemExit\<close> and \<^verbatim>\<open>GeneratorExit\<close> are the
  built-in exceptions that derive from \<^verbatim>\<open>BaseException\<close> and not from \<^verbatim>\<open>Exception\<close>.
  \<open>isinstance_Exception e\<close> is what the clause \<^verbatim>\<open>except Exception\<close> tests. A function that
  may raise returns \<open>Inl e\<close> when it raises \<open>e\<close> and \<open>Inr v\<close> when it returns \<open>v\<close>.
\<close>

datatype py_exception =
    Exception string
  | KeyboardInterrupt
  | SystemExit
  | GeneratorExit

definition isinstance_Exception :: "py_exception \<Rightarrow> bool" where
  "isinstance_Exception e =
     (case e of
        Exception message \<Rightarrow> True
      | KeyboardInterrupt \<Rightarrow> False
      | SystemExit \<Rightarrow> False
      | GeneratorExit \<Rightarrow> False)"

definition kociemba_letter :: "char \<Rightarrow> char" where
  "kociemba_letter color =
     (if color = CHR ''W'' then CHR ''U''
      else if color = CHR ''R'' then CHR ''R''
      else if color = CHR ''G'' then CHR ''F''
      else if color = CHR ''Y'' then CHR ''D''
      else if color = CHR ''O'' then CHR ''L''
      else if color = CHR ''B'' then CHR ''B''
      else CHR ''U'')"

definition get_kociemba_string :: "bool \<Rightarrow> cube \<Rightarrow> string option" where
  "get_kociemba_string kociemba_available s =
     (if \<not> kociemba_available then None
      else Some (fold (\<lambda>f result.
                   fold (\<lambda>row result.
                     fold (\<lambda>color result. result @ [kociemba_letter color]) row result)
                     (faces s f) result)
                 [UP, RIGHT, FRONT, DOWN, LEFT, BACK] []))"

text \<open>
  Python's \<^verbatim>\<open>str.isspace\<close> on the characters below 256, \<^verbatim>\<open>str.strip()\<close> and
  \<^verbatim>\<open>str.split()\<close> without arguments (runs of whitespace separate the tokens, and there
  are no empty tokens).
\<close>

definition py_isspace :: "char \<Rightarrow> bool" where
  "py_isspace c =
     (of_char c \<in> {9, 10, 11, 12, 13, 28, 29, 30, 31, 32, 133, 160 :: nat})"

definition py_strip :: "string \<Rightarrow> string" where
  "py_strip s = rev (dropWhile py_isspace (rev (dropWhile py_isspace s)))"

fun split_from :: "string \<Rightarrow> string \<Rightarrow> string list" where
  "split_from [] token = (if token = [] then [] else [token])"
| "split_from (c # cs) token =
     (if py_isspace c then (if token = [] then split_from cs [] else token # split_from cs [])
      else split_from cs (token @ [c]))"

definition py_split :: "string \<Rightarrow> string list" where
  "py_split s = split_from s []"

text \<open>
  The validation loop of \<^verbatim>\<open>solve_kociemba\<close>; \<^verbatim>\<open>CubeSolver.move_map\<close> has the entries
  of the \<open>move_map\<close> of the cube.
\<close>

fun validate_moves :: "string list \<Rightarrow> string list \<Rightarrow> string list option" where
  "validate_moves [] valid_moves = Some valid_moves"
| "validate_moves (move # rest) valid_moves =
     (if map_of move_map move \<noteq> None then validate_moves rest (valid_moves @ [move])
      else None)"

text \<open>
  \<^verbatim>\<open>solve_kociemba\<close>: \<open>None\<close> is Python's \<^verbatim>\<open>None\<close>. An exception of the library that is
  an instance of \<^verbatim>\<open>Exception\<close> is caught by the clause \<^verbatim>\<open>except Exception\<close> and gives
  \<open>None\<close>; any other exception leaves the function.
\<close>

definition solve_kociemba ::
  "bool \<Rightarrow> (string \<Rightarrow> py_exception + string) \<Rightarrow> cube
     \<Rightarrow> py_exception + string list option" where
  "solve_kociemba kociemba_available kociemba_solve cube =
     (if \<not> kociemba_available then Inr None
      else
        (case get_kociemba_string kociemba_available cube of
           None \<Rightarrow> Inr None
         | Some cube_string \<Rightarrow>
             if cube_string = [] \<or> length cube_string \<noteq> 54 then Inr None
             else
               (case kociemba_solve cube_string of
                  Inl e \<Rightarrow> if isinstance_Exception e then Inr None else Inl e
                | Inr solution_string \<Rightarrow>
                    if solution_string = [] then Inr (Some [])
                    else if solution_string \<noteq> [] \<and> py_strip solution_string \<noteq> [] then
                      Inr (validate_moves (py_split (py_strip solution_string)) [])
                    else Inr None)))"

subsection \<open>Breadth-first search\<close>

text \<open>
  \<^verbatim>\<open>solve_bfs\<close>. The queue holds pairs of a cube and the moves that lead to it, \<open>visited\<close>
  is the set of state strings. The wall clock is not part of the model: \<open>timed_out n\<close> says
  whether the check of the time limit fires in the iteration that starts with
  \<open>nodes_explored = n\<close>. The loop ends when the queue is empty, on the time limit, or when
  more than \<open>max_nodes\<close> nodes have been explored; in each case the function returns
  \<^verbatim>\<open>None\<close>.
\<close>

definition max_nodes :: nat where
  "max_nodes = 100000"

text \<open>The loop \<^verbatim>\<open>for move in self.moves\<close> over the moves that are left.\<close>

fun try_moves ::
  "cube \<Rightarrow> string list \<Rightarrow> string list \<Rightarrow> (cube \<times> string list) list \<Rightarrow> string set
     \<Rightarrow> string list + ((cube \<times> string list) list \<times> string set)" where
  "try_moves current_cube moves_so_far [] queue visited = Inr (queue, visited)"
| "try_moves current_cube moves_so_far (move # rest) queue visited =
     (let new_cube = apply_move (copy current_cube) move False
      in if is_solved new_cube then Inl (moves_so_far @ [move])
         else
           (let state = get_state_string new_cube
            in if state \<notin> visited
               then try_moves current_cube moves_so_far rest
                      (queue @ [(new_cube, moves_so_far @ [move])]) (insert state visited)
               else try_moves current_cube moves_so_far rest queue visited))"

function bfs_loop ::
  "(nat \<Rightarrow> bool) \<Rightarrow> nat \<Rightarrow> (cube \<times> string list) list \<Rightarrow> string set \<Rightarrow> nat
     \<Rightarrow> string list option" where
  "bfs_loop timed_out max_depth [] visited nodes_explored = None"
| "bfs_loop timed_out max_depth ((current_cube, moves_so_far) # queue) visited nodes_explored =
     (if timed_out nodes_explored then None
      else if nodes_explored > max_nodes then None
      else if length moves_so_far \<ge> max_depth
        then bfs_loop timed_out max_depth queue visited (nodes_explored + 1)
      else
        (case try_moves current_cube moves_so_far moves queue visited of
           Inl solution \<Rightarrow> Some solution
         | Inr (queue', visited') \<Rightarrow>
             bfs_loop timed_out max_depth queue' visited' (nodes_explored + 1)))"
  by pat_completeness auto
termination
  by (relation "measure (\<lambda>(timed_out, max_depth, queue, visited, nodes_explored).
        max_nodes + 1 - nodes_explored)") auto

definition solve_bfs :: "(nat \<Rightarrow> bool) \<Rightarrow> cube \<Rightarrow> nat \<Rightarrow> string list option" where
  "solve_bfs timed_out cube max_depth =
     (if is_solved cube then Some []
      else bfs_loop timed_out max_depth [(copy cube, [])] {get_state_string cube} 0)"

subsection \<open>The three methods of \<^verbatim>\<open>solve_cube\<close>\<close>

text \<open>
  Method 1: the reversed history, verified on a copy. \<open>None\<close> stands for falling through to
  the next method.
\<close>

definition perfect_reverse :: "cube \<Rightarrow> string list option" where
  "perfect_reverse cube =
     (if move_history cube \<noteq> [] then
        (let perfect_solution = get_perfect_solution cube;
             test_cube = replay (copy cube) perfect_solution
         in if is_solved test_cube then Some perfect_solution else None)
      else None)"

text \<open>
  Method 2: the external solver, when available, verified on a copy; an empty or missing
  answer falls through, and so does an exception that the clause \<^verbatim>\<open>except Exception\<close> of
  \<^verbatim>\<open>solve_cube\<close> catches. Any other exception leaves \<^verbatim>\<open>solve_cube\<close>.
\<close>

definition kociemba_method ::
  "bool \<Rightarrow> (string \<Rightarrow> py_exception + string) \<Rightarrow> cube
     \<Rightarrow> py_exception + string list option" where
  "kociemba_method kociemba_available kociemba_solve cube =
     (if kociemba_available then
        (case solve_kociemba kociemba_available kociemba_solve cube of
           Inl e \<Rightarrow> if isinstance_Exception e then Inr None else Inl e
         | Inr None \<Rightarrow> Inr None
         | Inr (Some kociemba_solution) \<Rightarrow>
             if kociemba_solution \<noteq> [] then
               (let test_cube = replay (copy cube) kociemba_solution
                in if is_solved test_cube then Inr (Some kociemba_solution) else Inr None)
             else Inr None)
      else Inr None)"

text \<open>
  Method 3: the search with depth limits 1, 2, ..., \<open>max_search_depth\<close>; each call of
  \<open>solve_bfs\<close> has its own clock, \<open>timed_out max_depth\<close>. The function returns the first
  non-empty solution, and the empty list when no depth gives one.
\<close>

definition max_search_depth :: "cube \<Rightarrow> nat" where
  "max_search_depth cube =
     (if move_history cube \<noteq> [] then min 12 (length (move_history cube) + 6) else 8)"

fun bfs_depths :: "(nat \<Rightarrow> nat \<Rightarrow> bool) \<Rightarrow> cube \<Rightarrow> nat list \<Rightarrow> string list" where
  "bfs_depths timed_out cube [] = []"
| "bfs_depths timed_out cube (max_depth # rest) =
     (case solve_bfs (timed_out max_depth) cube max_depth of
        None \<Rightarrow> bfs_depths timed_out cube rest
      | Some bfs_solution \<Rightarrow>
          if bfs_solution \<noteq> [] then bfs_solution else bfs_depths timed_out cube rest)"

definition solve_cube ::
  "bool \<Rightarrow> (string \<Rightarrow> py_exception + string) \<Rightarrow> (nat \<Rightarrow> nat \<Rightarrow> bool) \<Rightarrow> cube
     \<Rightarrow> py_exception + string list" where
  "solve_cube kociemba_available kociemba_solve timed_out cube =
     (if is_solved cube then Inr []
      else
        (case perfect_reverse cube of
           Some perfect_solution \<Rightarrow> Inr perfect_solution
         | None \<Rightarrow>
             (case kociemba_method kociemba_available kociemba_solve cube of
                Inl e \<Rightarrow> Inl e
              | Inr (Some kociemba_solution) \<Rightarrow> Inr kociemba_solution
              | Inr None \<Rightarrow>
                  Inr (bfs_depths timed_out cube [1..<max_search_depth cube + 1]))))"

section \<open>Notions for the correctness of the search\<close>

text \<open>
  The state string of the solved cube; paths of canonical moves; the state string that a
  path leads to from the start cube \<open>c0\<close>; and paths that are as short as any canonical
  path to the same state.
\<close>

definition solved_string :: string where
  "solved_string = ''WWWWWWWWWRRRRRRRRRGGGGGGGGGYYYYYYYYYOOOOOOOOOBBBBBBBBB''"

definition canonical :: "string list \<Rightarrow> bool" where
  "canonical p = (set p \<subseteq> set moves)"

definition key :: "cube \<Rightarrow> string list \<Rightarrow> string" where
  "key c0 p = get_state_string (replay c0 p)"

definition shortest :: "cube \<Rightarrow> string list \<Rightarrow> bool" where
  "shortest c0 p = (\<forall>q. canonical q \<longrightarrow> key c0 q = key c0 p \<longrightarrow> length p \<le> length q)"

text \<open>
  What the search promises for a solution, and the invariant of its loop: the queue holds
  shortest paths of length \<open>k\<close> or \<open>k + 1\<close> in order of length, no visited state is
  solved, and every move from a visited state leads to a visited state unless the state is
  still queued, lies at the depth limit \<open>d\<close>, or the move is pending in \<open>P\<close>.
\<close>

definition good_solution :: "cube \<Rightarrow> nat \<Rightarrow> string list \<Rightarrow> bool" where
  "good_solution c0 d sol =
     (canonical sol \<and> length sol \<le> d \<and> is_solved (replay c0 sol) \<and>
      (\<forall>q. canonical q \<longrightarrow> is_solved (replay c0 q) \<longrightarrow> length sol \<le> length q))"

definition bfs_inv ::
  "cube \<Rightarrow> nat \<Rightarrow> nat \<Rightarrow> (string \<times> string) set \<Rightarrow> (cube \<times> string list) list \<Rightarrow> string set
     \<Rightarrow> bool" where
  "bfs_inv c0 d k P Q V =
     ((\<forall>x \<in> set Q. fst x = replay c0 (snd x) \<and> canonical (snd x) \<and> k \<le> length (snd x) \<and>
          length (snd x) \<le> Suc k \<and> shortest c0 (snd x)) \<and>
      sorted (map (\<lambda>x. length (snd x)) Q) \<and>
      key c0 [] \<in> V \<and> solved_string \<notin> V \<and>
      (\<forall>q m. canonical q \<longrightarrow> m \<in> set moves \<longrightarrow> key c0 q \<in> V \<longrightarrow>
          key c0 (q @ [m]) \<in> V \<or> (\<exists>x \<in> set Q. key c0 (snd x) = key c0 q) \<or>
          d \<le> length q \<or> (key c0 q, m) \<in> P))"

text \<open>
  The number of paths of at most \<open>j\<close> moves, \<open>1 + 12 + \<dots> + 12 ^ j\<close>, bounds the nodes
  that the search explores below a node.
\<close>

fun nodes_below :: "nat \<Rightarrow> nat" where
  "nodes_below 0 = 1"
| "nodes_below (Suc j) = 1 + 12 * nodes_below j"

definition node_weight :: "nat \<Rightarrow> nat \<Rightarrow> nat" where
  "node_weight L l = (if l < L then nodes_below (L - 1 - l) else 0)"

definition queue_weight :: "nat \<Rightarrow> (cube \<times> string list) list \<Rightarrow> nat" where
  "queue_weight L Q = sum_list (map (\<lambda>x. node_weight L (length (snd x))) Q)"

section \<open>The cube as objects in a store\<close>

text \<open>
  For what a call changes, the lists and dictionaries of a cube are objects with an
  address. A \<^verbatim>\<open>RubiksCube\<close> object holds the addresses of its \<open>faces\<close> dictionary and of
  its \<open>move_history\<close> list; the dictionary maps a face to the address of a list of rows;
  that list holds the addresses of its three row lists; a row is a list of colours.
  \<open>next_addr\<close> is the first address that is not in use: a new object gets it.
\<close>

record store =
  cubes :: "nat \<Rightarrow> nat \<times> nat"
  dicts :: "nat \<Rightarrow> face \<Rightarrow> nat"
  grids :: "nat \<Rightarrow> nat list"
  rows :: "nat \<Rightarrow> char list"
  hists :: "nat \<Rightarrow> string list"
  next_addr :: nat

definition faces_ref :: "store \<Rightarrow> nat \<Rightarrow> nat" where
  "faces_ref h x = fst (cubes h x)"

definition history_ref :: "store \<Rightarrow> nat \<Rightarrow> nat" where
  "history_ref h x = snd (cubes h x)"

definition face_rows :: "store \<Rightarrow> nat \<Rightarrow> face \<Rightarrow> nat list" where
  "face_rows h x f = grids h (dicts h (faces_ref h x) f)"

text \<open>
  The cube that the object at \<open>x\<close> stands for. The methods that only read a cube
  (\<^verbatim>\<open>is_solved\<close>, \<^verbatim>\<open>get_state_string\<close>, \<^verbatim>\<open>get_row\<close>, \<^verbatim>\<open>get_col\<close>,
  \<^verbatim>\<open>get_perfect_solution\<close>, \<^verbatim>\<open>get_kociemba_string\<close>) are the functions above, applied to
  this value.
\<close>

definition cube_of :: "store \<Rightarrow> nat \<Rightarrow> cube" where
  "cube_of h x =
     \<lparr>faces = (\<lambda>f. map (rows h) (face_rows h x f)), move_history = hists h (history_ref h x)\<rparr>"

subsection \<open>New objects\<close>

definition alloc_row :: "store \<Rightarrow> char list \<Rightarrow> nat \<times> store" where
  "alloc_row h r =
     (next_addr h, h\<lparr>rows := (rows h)(next_addr h := r), next_addr := Suc (next_addr h)\<rparr>)"

definition alloc_grid :: "store \<Rightarrow> nat list \<Rightarrow> nat \<times> store" where
  "alloc_grid h g =
     (next_addr h, h\<lparr>grids := (grids h)(next_addr h := g), next_addr := Suc (next_addr h)\<rparr>)"

definition alloc_dict :: "store \<Rightarrow> (face \<Rightarrow> nat) \<Rightarrow> nat \<times> store" where
  "alloc_dict h d =
     (next_addr h, h\<lparr>dicts := (dicts h)(next_addr h := d), next_addr := Suc (next_addr h)\<rparr>)"

definition alloc_hist :: "store \<Rightarrow> string list \<Rightarrow> nat \<times> store" where
  "alloc_hist h l =
     (next_addr h, h\<lparr>hists := (hists h)(next_addr h := l), next_addr := Suc (next_addr h)\<rparr>)"

definition alloc_cube :: "store \<Rightarrow> nat \<times> nat \<Rightarrow> nat \<times> store" where
  "alloc_cube h c =
     (next_addr h, h\<lparr>cubes := (cubes h)(next_addr h := c), next_addr := Suc (next_addr h)\<rparr>)"

text \<open>A new list of new rows with the given colours: a list comprehension over rows.\<close>

fun alloc_rows :: "store \<Rightarrow> char list list \<Rightarrow> nat list \<times> store" where
  "alloc_rows h [] = ([], h)"
| "alloc_rows h (r # rs) =
     (case alloc_row h r of (a, h) \<Rightarrow>
        (case alloc_rows h rs of (as, h) \<Rightarrow> (a # as, h)))"

definition new_grid :: "store \<Rightarrow> char list list \<Rightarrow> nat \<times> store" where
  "new_grid h g = (case alloc_rows h g of (as, h) \<Rightarrow> alloc_grid h as)"

text \<open>
  \<^verbatim>\<open>RubiksCube()\<close>: the six lists of rows, the dictionary, the empty history and the
  object. The result is the address of the object.
\<close>

definition init_st :: "store \<Rightarrow> nat \<times> store" where
  "init_st h =
     (case new_grid h (solved_faces FRONT) of (front, h) \<Rightarrow>
      case new_grid h (solved_faces BACK) of (back, h) \<Rightarrow>
      case new_grid h (solved_faces LEFT) of (left, h) \<Rightarrow>
      case new_grid h (solved_faces RIGHT) of (right, h) \<Rightarrow>
      case new_grid h (solved_faces UP) of (up, h) \<Rightarrow>
      case new_grid h (solved_faces DOWN) of (down, h) \<Rightarrow>
      case alloc_dict h (\<lambda>f. case f of FRONT \<Rightarrow> front | BACK \<Rightarrow> back | LEFT \<Rightarrow> left
                           | RIGHT \<Rightarrow> right | UP \<Rightarrow> up | DOWN \<Rightarrow> down) of (d, h) \<Rightarrow>
      case alloc_hist h [] of (l, h) \<Rightarrow>
      alloc_cube h (d, l))"

text \<open>
  \<^verbatim>\<open>copy\<close>: a new cube; for each face, in the order of the enumeration,
  \<^verbatim>\<open>new_cube.faces[face] = [row[:] for row in self.faces[face]]\<close> stores a new list of
  new rows in the dictionary of the new cube; then
  \<^verbatim>\<open>new_cube.move_history = self.move_history.copy()\<close>.
\<close>

definition set_face_st :: "store \<Rightarrow> nat \<Rightarrow> face \<Rightarrow> nat \<Rightarrow> store" where
  "set_face_st h x f g =
     h\<lparr>dicts := (dicts h)(faces_ref h x := (dicts h (faces_ref h x))(f := g))\<rparr>"

definition set_history_st :: "store \<Rightarrow> nat \<Rightarrow> nat \<Rightarrow> store" where
  "set_history_st h x l = h\<lparr>cubes := (cubes h)(x := (faces_ref h x, l))\<rparr>"

definition copy_face_st :: "nat \<Rightarrow> nat \<Rightarrow> face \<Rightarrow> store \<Rightarrow> store" where
  "copy_face_st x new_cube f h =
     (case new_grid h (map (rows h) (face_rows h x f)) of (g, h) \<Rightarrow> set_face_st h new_cube f g)"

definition copy_st :: "store \<Rightarrow> nat \<Rightarrow> nat \<times> store" where
  "copy_st h x =
     (case init_st h of (new_cube, h) \<Rightarrow>
        (let h = fold (copy_face_st x new_cube) [FRONT, BACK, LEFT, RIGHT, UP, DOWN] h
         in case alloc_hist h (hists h (history_ref h x)) of (l, h) \<Rightarrow>
              (new_cube, set_history_st h new_cube l)))"

subsection \<open>The moves in the store\<close>

text \<open>
  \<open>set_cell_st h x f r c v\<close> is the assignment \<^verbatim>\<open>self.faces[f][r][c] = v\<close> on the object
  \<open>x\<close>: it changes the row list at the address found through \<open>x\<close>. Where the row does
  not exist Python raises \<open>IndexError\<close> and nothing is written.
\<close>

definition set_cell_st :: "store \<Rightarrow> nat \<Rightarrow> face \<Rightarrow> nat \<Rightarrow> nat \<Rightarrow> char \<Rightarrow> store" where
  "set_cell_st h x f r c v =
     (if r < length (face_rows h x f)
      then h\<lparr>rows := (rows h)(face_rows h x f ! r := (rows h (face_rows h x f ! r))[c := v])\<rparr>
      else h)"

definition rotate_face_clockwise_st :: "store \<Rightarrow> nat \<Rightarrow> face \<Rightarrow> store" where
  "rotate_face_clockwise_st h x f =
     (let old_face = map (\<lambda>row. row) (faces (cube_of h x) f)
      in fold (\<lambda>i h. fold (\<lambda>j h. set_cell_st h x f j (2 - i) (old_face ! i ! j)) [0..<3] h)
           [0..<3] h)"

definition rotate_face_counterclockwise_st :: "store \<Rightarrow> nat \<Rightarrow> face \<Rightarrow> store" where
  "rotate_face_counterclockwise_st h x f =
     fold (\<lambda>_ h. rotate_face_clockwise_st h x f) [0..<3] h"

definition set_row_st :: "store \<Rightarrow> nat \<Rightarrow> face \<Rightarrow> nat \<Rightarrow> char list \<Rightarrow> store" where
  "set_row_st h x f row_idx values =
     fold (\<lambda>(i, val) h. set_cell_st h x f row_idx i val) (enumerate 0 values) h"

definition set_col_st :: "store \<Rightarrow> nat \<Rightarrow> face \<Rightarrow> nat \<Rightarrow> char list \<Rightarrow> store" where
  "set_col_st h x f col_idx values =
     fold (\<lambda>(i, val) h. set_cell_st h x f i col_idx val) (enumerate 0 values) h"

definition rotate_front_st :: "store \<Rightarrow> nat \<Rightarrow> bool \<Rightarrow> store" where
  "rotate_front_st h x clockwise =
     (if clockwise then
        (let h = rotate_face_clockwise_st h x FRONT;
             temp = get_row (cube_of h x) UP 2;
             h = set_row_st h x UP 2 (rev (get_col (cube_of h x) LEFT 2));
             h = set_col_st h x LEFT 2 (get_row (cube_of h x) DOWN 0);
             h = set_row_st h x DOWN 0 (rev (get_col (cube_of h x) RIGHT 0));
             h = set_col_st h x RIGHT 0 temp
         in h)
      else
        (let h = rotate_face_counterclockwise_st h x FRONT;
             temp = get_row (cube_of h x) UP 2;
             h = set_row_st h x UP 2 (get_col (cube_of h x) RIGHT 0);
             h = set_col_st h x RIGHT 0 (rev (get_row (cube_of h x) DOWN 0));
             h = set_row_st h x DOWN 0 (get_col (cube_of h x) LEFT 2);
             h = set_col_st h x LEFT 2 (rev temp)
         in h))"

definition rotate_right_st :: "store \<Rightarrow> nat \<Rightarrow> bool \<Rightarrow> store" where
  "rotate_right_st h x clockwise =
     (if clockwise then
        (let h = rotate_face_clockwise_st h x RIGHT;
             temp = get_col (cube_of h x) UP 2;
             h = set_col_st h x UP 2 (get_col (cube_of h x) FRONT 2);
             h = set_col_st h x FRONT 2 (get_col (cube_of h x) DOWN 2);
             h = set_col_st h x DOWN 2 (rev (get_col (cube_of h x) BACK 0));
             h = set_col_st h x BACK 0 (rev temp)
         in h)
      else
        (let h = rotate_face_counterclockwise_st h x RIGHT;
             temp = get_col (cube_of h x) UP 2;
             h = set_col_st h x UP 2 (rev (get_col (cube_of h x) BACK 0));
             h = set_col_st h x BACK 0 (rev (get_col (cube_of h x) DOWN 2));
             h = set_col_st h x DOWN 2 (get_col (cube_of h x) FRONT 2);
             h = set_col_st h x FRONT 2 temp
         in h))"

definition rotate_up_st :: "store \<Rightarrow> nat \<Rightarrow> bool \<Rightarrow> store" where
  "rotate_up_st h x clockwise =
     (if clockwise then
        (let h = rotate_face_clockwise_st h x UP;
             temp = get_row (cube_of h x) FRONT 0;
             h = set_row_st h x FRONT 0 (get_row (cube_of h x) RIGHT 0);
             h = set_row_st h x RIGHT 0 (get_row (cube_of h x) BACK 0);
             h = set_row_st h x BACK 0 (get_row (cube_of h x) LEFT 0);
             h = set_row_st h x LEFT 0 temp
         in h)
      else
        (let h = rotate_face_counterclockwise_st h x UP;
             temp = get_row (cube_of h x) FRONT 0;
             h = set_row_st h x FRONT 0 (get_row (cube_of h x) LEFT 0);
             h = set_row_st h x LEFT 0 (get_row (cube_of h x) BACK 0);
             h = set_row_st h x BACK 0 (get_row (cube_of h x) RIGHT 0);
             h = set_row_st h x RIGHT 0 temp
         in h))"

definition rotate_left_st :: "store \<Rightarrow> nat \<Rightarrow> bool \<Rightarrow> store" where
  "rotate_left_st h x clockwise =
     (if clockwise then
        (let h = rotate_face_clockwise_st h x LEFT;
             temp = get_col (cube_of h x) UP 0;
             h = set_col_st h x UP 0 (rev (get_col (cube_of h x) BACK 2));
             h = set_col_st h x BACK 2 (rev (get_col (cube_of h x) DOWN 0));
             h = set_col_st h x DOWN 0 (get_col (cube_of h x) FRONT 0);
             h = set_col_st h x FRONT 0 temp
         in h)
      else
        (let h = rotate_face_counterclockwise_st h x LEFT;
             temp = get_col (cube_of h x) UP 0;
             h = set_col_st h x UP 0 (get_col (cube_of h x) FRONT 0);
             h = set_col_st h x FRONT 0 (get_col (cube_of h x) DOWN 0);
             h = set_col_st h x DOWN 0 (rev (get_col (cube_of h x) BACK 2));
             h = set_col_st h x BACK 2 (rev temp)
         in h))"

definition rotate_down_st :: "store \<Rightarrow> nat \<Rightarrow> bool \<Rightarrow> store" where
  "rotate_down_st h x clockwise =
     (if clockwise then
        (let h = rotate_face_clockwise_st h x DOWN;
             temp = get_row (cube_of h x) FRONT 2;
             h = set_row_st h x FRONT 2 (get_row (cube_of h x) LEFT 2);
             h = set_row_st h x LEFT 2 (get_row (cube_of h x) BACK 2);
             h = set_row_st h x BACK 2 (get_row (cube_of h x) RIGHT 2);
             h = set_row_st h x RIGHT 2 temp
         in h)
      else
        (let h = rotate_face_counterclockwise_st h x DOWN;
             temp = get_row (cube_of h x) FRONT 2;
             h = set_row_st h x FRONT 2 (get_row (cube_of h x) RIGHT 2);
             h = set_row_st h x RIGHT 2 (get_row (cube_of h x) BACK 2);
             h = set_row_st h x BACK 2 (get_row (cube_of h x) LEFT 2);
             h = set_row_st h x LEFT 2 temp
         in h))"

definition rotate_back_st :: "store \<Rightarrow> nat \<Rightarrow> bool \<Rightarrow> store" where
  "rotate_back_st h x clockwise =
     (if clockwise then
        (let h = rotate_face_clockwise_st h x BACK;
             temp = get_row (cube_of h x) UP 0;
             h = set_row_st h x UP 0 (get_col (cube_of h x) RIGHT 2);
             h = set_col_st h x RIGHT 2 (rev (get_row (cube_of h x) DOWN 2));
             h = set_row_st h x DOWN 2 (get_col (cube_of h x) LEFT 0);
             h = set_col_st h x LEFT 0 (rev temp)
         in h)
      else
        (let h = rotate_face_counterclockwise_st h x BACK;
             temp = get_row (cube_of h x) UP 0;
             h = set_row_st h x UP 0 (rev (get_col (cube_of h x) LEFT 0));
             h = set_col_st h x LEFT 0 (get_row (cube_of h x) DOWN 2);
             h = set_row_st h x DOWN 2 (rev (get_col (cube_of h x) RIGHT 2));
             h = set_col_st h x RIGHT 2 temp
         in h))"

fun call_rotation_st :: "rotation \<Rightarrow> store \<Rightarrow> nat \<Rightarrow> bool \<Rightarrow> store" where
  "call_rotation_st Rotate_front h x clockwise = rotate_front_st h x clockwise"
| "call_rotation_st Rotate_right h x clockwise = rotate_right_st h x clockwise"
| "call_rotation_st Rotate_up h x clockwise = rotate_up_st h x clockwise"
| "call_rotation_st Rotate_left h x clockwise = rotate_left_st h x clockwise"
| "call_rotation_st Rotate_down h x clockwise = rotate_down_st h x clockwise"
| "call_rotation_st Rotate_back h x clockwise = rotate_back_st h x clockwise"

definition append_history_st :: "store \<Rightarrow> nat \<Rightarrow> string \<Rightarrow> store" where
  "append_history_st h x move =
     h\<lparr>hists := (hists h)(history_ref h x := hists h (history_ref h x) @ [move])\<rparr>"

definition apply_move_st :: "store \<Rightarrow> nat \<Rightarrow> string \<Rightarrow> bool \<Rightarrow> store" where
  "apply_move_st h x move track_history =
     (case map_of move_map move of
        None \<Rightarrow> h
      | Some (func_name, clockwise) \<Rightarrow>
          (let h = call_rotation_st func_name h x clockwise
           in if track_history then append_history_st h x move else h))"

subsection \<open>The solver in the store\<close>

text \<open>
  The functions of the solver again, with the store that they leave: \<open>cube\<close>,
  \<open>test_cube\<close>, \<open>current_cube\<close> and \<open>new_cube\<close> are addresses of cube objects, and the queue
  of the search holds addresses.
\<close>

definition replay_st :: "store \<Rightarrow> nat \<Rightarrow> string list \<Rightarrow> store" where
  "replay_st h test_cube solution =
     fold (\<lambda>move h. apply_move_st h test_cube move False) solution h"

definition verify_st :: "store \<Rightarrow> nat \<Rightarrow> string list \<Rightarrow> string list option \<times> store" where
  "verify_st h cube solution =
     (case copy_st h cube of (test_cube, h) \<Rightarrow>
        (let h = replay_st h test_cube solution
         in (if is_solved (cube_of h test_cube) then Some solution else None, h)))"

definition perfect_reverse_st :: "store \<Rightarrow> nat \<Rightarrow> string list option \<times> store" where
  "perfect_reverse_st h cube =
     (if move_history (cube_of h cube) \<noteq> [] then
        (let perfect_solution = get_perfect_solution (cube_of h cube)
         in verify_st h cube perfect_solution)
      else (None, h))"

definition kociemba_method_st ::
  "bool \<Rightarrow> (string \<Rightarrow> py_exception + string) \<Rightarrow> store \<Rightarrow> nat
     \<Rightarrow> (py_exception + string list option) \<times> store" where
  "kociemba_method_st kociemba_available kociemba_solve h cube =
     (if kociemba_available then
        (case solve_kociemba kociemba_available kociemba_solve (cube_of h cube) of
           Inl e \<Rightarrow> (if isinstance_Exception e then Inr None else Inl e, h)
         | Inr None \<Rightarrow> (Inr None, h)
         | Inr (Some kociemba_solution) \<Rightarrow>
             if kociemba_solution \<noteq> [] then
               (case verify_st h cube kociemba_solution of (r, h) \<Rightarrow> (Inr r, h))
             else (Inr None, h))
      else (Inr None, h))"

fun try_moves_st ::
  "store \<Rightarrow> nat \<Rightarrow> string list \<Rightarrow> string list \<Rightarrow> (nat \<times> string list) list \<Rightarrow> string set
     \<Rightarrow> (string list + ((nat \<times> string list) list \<times> string set)) \<times> store" where
  "try_moves_st h current_cube moves_so_far [] queue visited = (Inr (queue, visited), h)"
| "try_moves_st h current_cube moves_so_far (move # rest) queue visited =
     (case copy_st h current_cube of (new_cube, h1) \<Rightarrow>
        (let h2 = apply_move_st h1 new_cube move False
         in if is_solved (cube_of h2 new_cube) then (Inl (moves_so_far @ [move]), h2)
            else
              (let state = get_state_string (cube_of h2 new_cube)
               in if state \<notin> visited
                  then try_moves_st h2 current_cube moves_so_far rest
                         (queue @ [(new_cube, moves_so_far @ [move])]) (insert state visited)
                  else try_moves_st h2 current_cube moves_so_far rest queue visited)))"

function bfs_loop_st ::
  "(nat \<Rightarrow> bool) \<Rightarrow> nat \<Rightarrow> store \<Rightarrow> (nat \<times> string list) list \<Rightarrow> string set \<Rightarrow> nat
     \<Rightarrow> string list option \<times> store" where
  "bfs_loop_st timed_out max_depth h [] visited nodes_explored = (None, h)"
| "bfs_loop_st timed_out max_depth h ((current_cube, moves_so_far) # queue) visited
     nodes_explored =
     (if timed_out nodes_explored then (None, h)
      else if nodes_explored > max_nodes then (None, h)
      else if length moves_so_far \<ge> max_depth
        then bfs_loop_st timed_out max_depth h queue visited (nodes_explored + 1)
      else
        (case try_moves_st h current_cube moves_so_far moves queue visited of
           (Inl solution, h') \<Rightarrow> (Some solution, h')
         | (Inr (queue', visited'), h') \<Rightarrow>
             bfs_loop_st timed_out max_depth h' queue' visited' (nodes_explored + 1)))"
  by pat_completeness auto
termination
  by (relation "measure (\<lambda>(timed_out, max_depth, h, queue, visited, nodes_explored).
        max_nodes + 1 - nodes_explored)") auto

definition solve_bfs_st ::
  "(nat \<Rightarrow> bool) \<Rightarrow> store \<Rightarrow> nat \<Rightarrow> nat \<Rightarrow> string list option \<times> store" where
  "solve_bfs_st timed_out h cube max_depth =
     (if is_solved (cube_of h cube) then (Some [], h)
      else
        (case copy_st h cube of (start, h') \<Rightarrow>
           bfs_loop_st timed_out max_depth h' [(start, [])]
             {get_state_string (cube_of h' cube)} 0))"

fun bfs_depths_st ::
  "(nat \<Rightarrow> nat \<Rightarrow> bool) \<Rightarrow> store \<Rightarrow> nat \<Rightarrow> nat list \<Rightarrow> string list \<times> store" where
  "bfs_depths_st timed_out h cube [] = ([], h)"
| "bfs_depths_st timed_out h cube (max_depth # rest) =
     (case solve_bfs_st (timed_out max_depth) h cube max_depth of
        (None, h') \<Rightarrow> bfs_depths_st timed_out h' cube rest
      | (Some bfs_solution, h') \<Rightarrow>
          if bfs_solution \<noteq> [] then (bfs_solution, h')
          else bfs_depths_st timed_out h' cube rest)"

definition solve_cube_st ::
  "bool \<Rightarrow> (string \<Rightarrow> py_exception + string) \<Rightarrow> (nat \<Rightarrow> nat \<Rightarrow> bool) \<Rightarrow> store \<Rightarrow> nat
     \<Rightarrow> (py_exception + string list) \<times> store" where
  "solve_cube_st kociemba_available kociemba_solve timed_out h cube =
     (if is_solved (cube_of h cube) then (Inr [], h)
      else
        (case perfect_reverse_st h cube of
           (Some perfect_solution, h1) \<Rightarrow> (Inr perfect_solution, h1)
         | (None, h1) \<Rightarrow>
             (case kociemba_method_st kociemba_available kociemba_solve h1 cube of
                (Inl e, h2) \<Rightarrow> (Inl e, h2)
              | (Inr (Some kociemba_solution), h2) \<Rightarrow> (Inr kociemba_solution, h2)
              | (Inr None, h2) \<Rightarrow>
                  (case bfs_depths_st timed_out h2 cube
                          [1..<max_search_depth (cube_of h2 cube) + 1] of
                     (bfs_solution, h3) \<Rightarrow> (Inr bfs_solution, h3)))))"

subsection \<open>What a call keeps\<close>

text \<open>
  \<open>keeps m n h h'\<close>: from \<open>h\<close> to \<open>h'\<close> no address is given up, the cube objects,
  dictionaries and lists of rows below \<open>m\<close> are the same, and the rows and histories below
  \<open>n\<close> have the same contents. \<open>allocated h x\<close>: the object \<open>x\<close>, its dictionary and its
  lists of rows exist. \<open>owned n h x\<close>: moreover the rows and the history of \<open>x\<close> are not
  below \<open>n\<close>. \<open>valid_cube h x\<close>: all the parts of \<open>x\<close> exist.
\<close>

definition keeps :: "nat \<Rightarrow> nat \<Rightarrow> store \<Rightarrow> store \<Rightarrow> bool" where
  "keeps m n h h' =
     (next_addr h \<le> next_addr h' \<and>
      (\<forall>a < m. cubes h' a = cubes h a \<and> dicts h' a = dicts h a \<and> grids h' a = grids h a) \<and>
      (\<forall>a < n. rows h' a = rows h a \<and> hists h' a = hists h a))"

definition allocated :: "store \<Rightarrow> nat \<Rightarrow> bool" where
  "allocated h x =
     (x < next_addr h \<and> faces_ref h x < next_addr h \<and>
      (\<forall>f. dicts h (faces_ref h x) f < next_addr h))"

definition owned :: "nat \<Rightarrow> store \<Rightarrow> nat \<Rightarrow> bool" where
  "owned n h x =
     (allocated h x \<and> n \<le> history_ref h x \<and> (\<forall>f. \<forall>a \<in> set (face_rows h x f). n \<le> a))"

definition valid_cube :: "store \<Rightarrow> nat \<Rightarrow> bool" where
  "valid_cube h x =
     (allocated h x \<and> history_ref h x < next_addr h \<and>
      (\<forall>f. \<forall>a \<in> set (face_rows h x f). a < next_addr h))"

text \<open>
  While a cube is built: \<open>grid_ok lo h a\<close> says that the list of rows at \<open>a\<close> exists
  and its rows are new since \<open>lo\<close>; \<open>building lo h c\<close> says that all parts of the cube
  \<open>c\<close> exist and are new since \<open>lo\<close>.
\<close>

definition grid_ok :: "nat \<Rightarrow> store \<Rightarrow> nat \<Rightarrow> bool" where
  "grid_ok lo h a = (a < next_addr h \<and> (\<forall>b \<in> set (grids h a). lo \<le> b \<and> b < next_addr h))"

definition building :: "nat \<Rightarrow> store \<Rightarrow> nat \<Rightarrow> bool" where
  "building lo h c =
     (c < next_addr h \<and> lo \<le> c \<and> lo \<le> faces_ref h c \<and> faces_ref h c < next_addr h \<and>
      lo \<le> history_ref h c \<and> history_ref h c < next_addr h \<and>
      (\<forall>f. grid_ok lo h (dicts h (faces_ref h c) f)))"

text \<open>The store without objects.\<close>

definition empty_store :: store where
  "empty_store =
     \<lparr>cubes = (\<lambda>_. (0, 0)), dicts = (\<lambda>_ _. 0), grids = (\<lambda>_. []), rows = (\<lambda>_. []),
      hists = (\<lambda>_. []), next_addr = 0\<rparr>"

lemma upt3: "[0..<3] = [0, Suc 0, 2]"
  by (simp add: upt_rec numeral_3_eq_3 numeral_2_eq_2)

lemma wf_face_grid:
  assumes "wf_face g"
  obtains a b c d e f x y z where "g = [[a, b, c], [d, e, f], [x, y, z]]"
proof -
  have len3: "\<exists>a b c. xs = [a, b, c]" if "length xs = 3" for xs :: "'a list"
    using that by (cases xs; cases "tl xs"; cases "tl (tl xs)") (auto simp: numeral_3_eq_3)
  from assms have "length g = 3" by (simp add: wf_face_def)
  then obtain r1 r2 r3 where g: "g = [r1, r2, r3]" using len3 by blast
  with assms have "length r1 = 3" "length r2 = 3" "length r3 = 3"
    by (simp_all add: wf_face_def)
  then show ?thesis using g len3 that by metis
qed

lemma faces_mk [simp]:
  "faces (mk F B L R U D h) FRONT = F" "faces (mk F B L R U D h) BACK = B"
  "faces (mk F B L R U D h) LEFT = L" "faces (mk F B L R U D h) RIGHT = R"
  "faces (mk F B L R U D h) UP = U" "faces (mk F B L R U D h) DOWN = D"
  "move_history (mk F B L R U D h) = h"
  by (simp_all add: mk_def)

lemma upd_mk [simp]:
  "(mk F B L R U D h)\<lparr>faces := g\<rparr> = mk (g FRONT) (g BACK) (g LEFT) (g RIGHT) (g UP) (g DOWN) h"
  "(mk F B L R U D h)\<lparr>move_history := h'\<rparr> = mk F B L R U D h'"
  by (auto simp: mk_def fun_eq_iff split: face.splits)

lemma mk_faces: "mk (faces s FRONT) (faces s BACK) (faces s LEFT) (faces s RIGHT) (faces s UP) (faces s DOWN) (move_history s) = s"
  by (cases s) (auto simp: mk_def fun_eq_iff split: face.splits)

lemmas grid_simps = rotate_face_clockwise_def rotate_face_counterclockwise_def
  get_row_def get_col_def set_row_def set_col_def set_cell_def upt3 numeral_2_eq_2 enumerate_simps


lemmas rot_defs = rotate_front_def rotate_right_def rotate_up_def rotate_left_def
  rotate_down_def rotate_back_def


lemma rotate_front_cw:
  "rotate_front (mk [[f1, f2, f3], [f4, f5, f6], [f7, f8, f9]] [[b1, b2, b3], [b4, b5, b6], [b7, b8, b9]]
        [[l1, l2, l3], [l4, l5, l6], [l7, l8, l9]] [[r1, r2, r3], [r4, r5, r6], [r7, r8, r9]]
        [[u1, u2, u3], [u4, u5, u6], [u7, u8, u9]] [[d1, d2, d3], [d4, d5, d6], [d7, d8, d9]] h) True =
   mk [[f7, f4, f1], [f8, f5, f2], [f9, f6, f3]] [[b1, b2, b3], [b4, b5, b6], [b7, b8, b9]]
        [[l1, l2, d1], [l4, l5, d2], [l7, l8, d3]] [[u7, r2, r3], [u8, r5, r6], [u9, r8, r9]]
        [[u1, u2, u3], [u4, u5, u6], [l9, l6, l3]] [[r7, r4, r1], [d4, d5, d6], [d7, d8, d9]] h"
  by (simp add: rotate_front_def grid_simps Let_def)

lemma rotate_front_ccw:
  "rotate_front (mk [[f1, f2, f3], [f4, f5, f6], [f7, f8, f9]] [[b1, b2, b3], [b4, b5, b6], [b7, b8, b9]]
        [[l1, l2, l3], [l4, l5, l6], [l7, l8, l9]] [[r1, r2, r3], [r4, r5, r6], [r7, r8, r9]]
        [[u1, u2, u3], [u4, u5, u6], [u7, u8, u9]] [[d1, d2, d3], [d4, d5, d6], [d7, d8, d9]] h) False =
   mk [[f3, f6, f9], [f2, f5, f8], [f1, f4, f7]] [[b1, b2, b3], [b4, b5, b6], [b7, b8, b9]]
        [[l1, l2, u9], [l4, l5, u8], [l7, l8, u7]] [[d3, r2, r3], [d2, r5, r6], [d1, r8, r9]]
        [[u1, u2, u3], [u4, u5, u6], [r1, r4, r7]] [[l3, l6, l9], [d4, d5, d6], [d7, d8, d9]] h"
  by (simp add: rotate_front_def grid_simps Let_def)

lemma rotate_right_cw:
  "rotate_right (mk [[f1, f2, f3], [f4, f5, f6], [f7, f8, f9]] [[b1, b2, b3], [b4, b5, b6], [b7, b8, b9]]
        [[l1, l2, l3], [l4, l5, l6], [l7, l8, l9]] [[r1, r2, r3], [r4, r5, r6], [r7, r8, r9]]
        [[u1, u2, u3], [u4, u5, u6], [u7, u8, u9]] [[d1, d2, d3], [d4, d5, d6], [d7, d8, d9]] h) True =
   mk [[f1, f2, d3], [f4, f5, d6], [f7, f8, d9]] [[u9, b2, b3], [u6, b5, b6], [u3, b8, b9]]
        [[l1, l2, l3], [l4, l5, l6], [l7, l8, l9]] [[r7, r4, r1], [r8, r5, r2], [r9, r6, r3]]
        [[u1, u2, f3], [u4, u5, f6], [u7, u8, f9]] [[d1, d2, b7], [d4, d5, b4], [d7, d8, b1]] h"
  by (simp add: rotate_right_def grid_simps Let_def)

lemma rotate_right_ccw:
  "rotate_right (mk [[f1, f2, f3], [f4, f5, f6], [f7, f8, f9]] [[b1, b2, b3], [b4, b5, b6], [b7, b8, b9]]
        [[l1, l2, l3], [l4, l5, l6], [l7, l8, l9]] [[r1, r2, r3], [r4, r5, r6], [r7, r8, r9]]
        [[u1, u2, u3], [u4, u5, u6], [u7, u8, u9]] [[d1, d2, d3], [d4, d5, d6], [d7, d8, d9]] h) False =
   mk [[f1, f2, u3], [f4, f5, u6], [f7, f8, u9]] [[d9, b2, b3], [d6, b5, b6], [d3, b8, b9]]
        [[l1, l2, l3], [l4, l5, l6], [l7, l8, l9]] [[r3, r6, r9], [r2, r5, r8], [r1, r4, r7]]
        [[u1, u2, b7], [u4, u5, b4], [u7, u8, b1]] [[d1, d2, f3], [d4, d5, f6], [d7, d8, f9]] h"
  by (simp add: rotate_right_def grid_simps Let_def)

lemma rotate_up_cw:
  "rotate_up (mk [[f1, f2, f3], [f4, f5, f6], [f7, f8, f9]] [[b1, b2, b3], [b4, b5, b6], [b7, b8, b9]]
        [[l1, l2, l3], [l4, l5, l6], [l7, l8, l9]] [[r1, r2, r3], [r4, r5, r6], [r7, r8, r9]]
        [[u1, u2, u3], [u4, u5, u6], [u7, u8, u9]] [[d1, d2, d3], [d4, d5, d6], [d7, d8, d9]] h) True =
   mk [[r1, r2, r3], [f4, f5, f6], [f7, f8, f9]] [[l1, l2, l3], [b4, b5, b6], [b7, b8, b9]]
        [[f1, f2, f3], [l4, l5, l6], [l7, l8, l9]] [[b1, b2, b3], [r4, r5, r6], [r7, r8, r9]]
        [[u7, u4, u1], [u8, u5, u2], [u9, u6, u3]] [[d1, d2, d3], [d4, d5, d6], [d7, d8, d9]] h"
  by (simp add: rotate_up_def grid_simps Let_def)

lemma rotate_up_ccw:
  "rotate_up (mk [[f1, f2, f3], [f4, f5, f6], [f7, f8, f9]] [[b1, b2, b3], [b4, b5, b6], [b7, b8, b9]]
        [[l1, l2, l3], [l4, l5, l6], [l7, l8, l9]] [[r1, r2, r3], [r4, r5, r6], [r7, r8, r9]]
        [[u1, u2, u3], [u4, u5, u6], [u7, u8, u9]] [[d1, d2, d3], [d4, d5, d6], [d7, d8, d9]] h) False =
   mk [[l1, l2, l3], [f4, f5, f6], [f7, f8, f9]] [[r1, r2, r3], [b4, b5, b6], [b7, b8, b9]]
        [[b1, b2, b3], [l4, l5, l6], [l7, l8, l9]] [[f1, f2, f3], [r4, r5, r6], [r7, r8, r9]]
        [[u3, u6, u9], [u2, u5, u8], [u1, u4, u7]] [[d1, d2, d3], [d4, d5, d6], [d7, d8, d9]] h"
  by (simp add: rotate_up_def grid_simps Let_def)

lemma rotate_left_cw:
  "rotate_left (mk [[f1, f2, f3], [f4, f5, f6], [f7, f8, f9]] [[b1, b2, b3], [b4, b5, b6], [b7, b8, b9]]
        [[l1, l2, l3], [l4, l5, l6], [l7, l8, l9]] [[r1, r2, r3], [r4, r5, r6], [r7, r8, r9]]
        [[u1, u2, u3], [u4, u5, u6], [u7, u8, u9]] [[d1, d2, d3], [d4, d5, d6], [d7, d8, d9]] h) True =
   mk [[u1, f2, f3], [u4, f5, f6], [u7, f8, f9]] [[b1, b2, d7], [b4, b5, d4], [b7, b8, d1]]
        [[l7, l4, l1], [l8, l5, l2], [l9, l6, l3]] [[r1, r2, r3], [r4, r5, r6], [r7, r8, r9]]
        [[b9, u2, u3], [b6, u5, u6], [b3, u8, u9]] [[f1, d2, d3], [f4, d5, d6], [f7, d8, d9]] h"
  by (simp add: rotate_left_def grid_simps Let_def)

lemma rotate_left_ccw:
  "rotate_left (mk [[f1, f2, f3], [f4, f5, f6], [f7, f8, f9]] [[b1, b2, b3], [b4, b5, b6], [b7, b8, b9]]
        [[l1, l2, l3], [l4, l5, l6], [l7, l8, l9]] [[r1, r2, r3], [r4, r5, r6], [r7, r8, r9]]
        [[u1, u2, u3], [u4, u5, u6], [u7, u8, u9]] [[d1, d2, d3], [d4, d5, d6], [d7, d8, d9]] h) False =
   mk [[d1, f2, f3], [d4, f5, f6], [d7, f8, f9]] [[b1, b2, u7], [b4, b5, u4], [b7, b8, u1]]
        [[l3, l6, l9], [l2, l5, l8], [l1, l4, l7]] [[r1, r2, r3], [r4, r5, r6], [r7, r8, r9]]
        [[f1, u2, u3], [f4, u5, u6], [f7, u8, u9]] [[b9, d2, d3], [b6, d5, d6], [b3, d8, d9]] h"
  by (simp add: rotate_left_def grid_simps Let_def)

lemma rotate_down_cw:
  "rotate_down (mk [[f1, f2, f3], [f4, f5, f6], [f7, f8, f9]] [[b1, b2, b3], [b4, b5, b6], [b7, b8, b9]]
        [[l1, l2, l3], [l4, l5, l6], [l7, l8, l9]] [[r1, r2, r3], [r4, r5, r6], [r7, r8, r9]]
        [[u1, u2, u3], [u4, u5, u6], [u7, u8, u9]] [[d1, d2, d3], [d4, d5, d6], [d7, d8, d9]] h) True =
   mk [[f1, f2, f3], [f4, f5, f6], [l7, l8, l9]] [[b1, b2, b3], [b4, b5, b6], [r7, r8, r9]]
        [[l1, l2, l3], [l4, l5, l6], [b7, b8, b9]] [[r1, r2, r3], [r4, r5, r6], [f7, f8, f9]]
        [[u1, u2, u3], [u4, u5, u6], [u7, u8, u9]] [[d7, d4, d1], [d8, d5, d2], [d9, d6, d3]] h"
  by (simp add: rotate_down_def grid_simps Let_def)

lemma rotate_down_ccw:
  "rotate_down (mk [[f1, f2, f3], [f4, f5, f6], [f7, f8, f9]] [[b1, b2, b3], [b4, b5, b6], [b7, b8, b9]]
        [[l1, l2, l3], [l4, l5, l6], [l7, l8, l9]] [[r1, r2, r3], [r4, r5, r6], [r7, r8, r9]]
        [[u1, u2, u3], [u4, u5, u6], [u7, u8, u9]] [[d1, d2, d3], [d4, d5, d6], [d7, d8, d9]] h) False =
   mk [[f1, f2, f3], [f4, f5, f6], [r7, r8, r9]] [[b1, b2, b3], [b4, b5, b6], [l7, l8, l9]]
        [[l1, l2, l3], [l4, l5, l6], [f7, f8, f9]] [[r1, r2, r3], [r4, r5, r6], [b7, b8, b9]]
        [[u1, u2, u3], [u4, u5, u6], [u7, u8, u9]] [[d3, d6, d9], [d2, d5, d8], [d1, d4, d7]] h"
  by (simp add: rotate_down_def grid_simps Let_def)

lemma rotate_back_cw:
  "rotate_back (mk [[f1, f2, f3], [f4, f5, f6], [f7, f8, f9]] [[b1, b2, b3], [b4, b5, b6], [b7, b8, b9]]
        [[l1, l2, l3], [l4, l5, l6], [l7, l8, l9]] [[r1, r2, r3], [r4, r5, r6], [r7, r8, r9]]
        [[u1, u2, u3], [u4, u5, u6], [u7, u8, u9]] [[d1, d2, d3], [d4, d5, d6], [d7, d8, d9]] h) True =
   mk [[f1, f2, f3], [f4, f5, f6], [f7, f8, f9]] [[b7, b4, b1], [b8, b5, b2], [b9, b6, b3]]
        [[u3, l2, l3], [u2, l5, l6], [u1, l8, l9]] [[r1, r2, d9], [r4, r5, d8], [r7, r8, d7]]
        [[r3, r6, r9], [u4, u5, u6], [u7, u8, u9]] [[d1, d2, d3], [d4, d5, d6], [l1, l4, l7]] h"
  by (simp add: rotate_back_def grid_simps Let_def)

lemma rotate_back_ccw:
  "rotate_back (mk [[f1, f2, f3], [f4, f5, f6], [f7, f8, f9]] [[b1, b2, b3], [b4, b5, b6], [b7, b8, b9]]
        [[l1, l2, l3], [l4, l5, l6], [l7, l8, l9]] [[r1, r2, r3], [r4, r5, r6], [r7, r8, r9]]
        [[u1, u2, u3], [u4, u5, u6], [u7, u8, u9]] [[d1, d2, d3], [d4, d5, d6], [d7, d8, d9]] h) False =
   mk [[f1, f2, f3], [f4, f5, f6], [f7, f8, f9]] [[b3, b6, b9], [b2, b5, b8], [b1, b4, b7]]
        [[d7, l2, l3], [d8, l5, l6], [d9, l8, l9]] [[r1, r2, u1], [r4, r5, u2], [r7, r8, u3]]
        [[l7, l4, l1], [u4, u5, u6], [u7, u8, u9]] [[d1, d2, d3], [d4, d5, d6], [r9, r6, r3]] h"
  by (simp add: rotate_back_def grid_simps Let_def)


lemma map_of_move_map:
  "map_of move_map ''F'' = Some (Rotate_front, True)"
  "map_of move_map [CHR ''F'', CHR 0x27] = Some (Rotate_front, False)"
  "map_of move_map ''R'' = Some (Rotate_right, True)"
  "map_of move_map [CHR ''R'', CHR 0x27] = Some (Rotate_right, False)"
  "map_of move_map ''U'' = Some (Rotate_up, True)"
  "map_of move_map [CHR ''U'', CHR 0x27] = Some (Rotate_up, False)"
  "map_of move_map ''L'' = Some (Rotate_left, True)"
  "map_of move_map [CHR ''L'', CHR 0x27] = Some (Rotate_left, False)"
  "map_of move_map ''D'' = Some (Rotate_down, True)"
  "map_of move_map [CHR ''D'', CHR 0x27] = Some (Rotate_down, False)"
  "map_of move_map ''B'' = Some (Rotate_back, True)"
  "map_of move_map [CHR ''B'', CHR 0x27] = Some (Rotate_back, False)"
  by (simp_all add: move_map_def)

lemma get_reverse_move_moves:
  "get_reverse_move ''F'' = [CHR ''F'', CHR 0x27]"
  "get_reverse_move [CHR ''F'', CHR 0x27] = ''F''"
  "get_reverse_move ''R'' = [CHR ''R'', CHR 0x27]"
  "get_reverse_move [CHR ''R'', CHR 0x27] = ''R''"
  "get_reverse_move ''U'' = [CHR ''U'', CHR 0x27]"
  "get_reverse_move [CHR ''U'', CHR 0x27] = ''U''"
  "get_reverse_move ''L'' = [CHR ''L'', CHR 0x27]"
  "get_reverse_move [CHR ''L'', CHR 0x27] = ''L''"
  "get_reverse_move ''D'' = [CHR ''D'', CHR 0x27]"
  "get_reverse_move [CHR ''D'', CHR 0x27] = ''D''"
  "get_reverse_move ''B'' = [CHR ''B'', CHR 0x27]"
  "get_reverse_move [CHR ''B'', CHR 0x27] = ''B''"
  by (simp_all add: get_reverse_move_def)

lemma apply_move_F:
  "apply_move (mk [[f1, f2, f3], [f4, f5, f6], [f7, f8, f9]] [[b1, b2, b3], [b4, b5, b6], [b7, b8, b9]]
        [[l1, l2, l3], [l4, l5, l6], [l7, l8, l9]] [[r1, r2, r3], [r4, r5, r6], [r7, r8, r9]]
        [[u1, u2, u3], [u4, u5, u6], [u7, u8, u9]] [[d1, d2, d3], [d4, d5, d6], [d7, d8, d9]] h) ''F'' t =
   mk [[f7, f4, f1], [f8, f5, f2], [f9, f6, f3]] [[b1, b2, b3], [b4, b5, b6], [b7, b8, b9]]
        [[l1, l2, d1], [l4, l5, d2], [l7, l8, d3]] [[u7, r2, r3], [u8, r5, r6], [u9, r8, r9]]
        [[u1, u2, u3], [u4, u5, u6], [l9, l6, l3]] [[r7, r4, r1], [d4, d5, d6], [d7, d8, d9]] (if t then h @ [''F''] else h)"
  by (simp add: apply_move_def map_of_move_map rotate_front_cw)

lemma apply_move_Fp:
  "apply_move (mk [[f1, f2, f3], [f4, f5, f6], [f7, f8, f9]] [[b1, b2, b3], [b4, b5, b6], [b7, b8, b9]]
        [[l1, l2, l3], [l4, l5, l6], [l7, l8, l9]] [[r1, r2, r3], [r4, r5, r6], [r7, r8, r9]]
        [[u1, u2, u3], [u4, u5, u6], [u7, u8, u9]] [[d1, d2, d3], [d4, d5, d6], [d7, d8, d9]] h) [CHR ''F'', CHR 0x27] t =
   mk [[f3, f6, f9], [f2, f5, f8], [f1, f4, f7]] [[b1, b2, b3], [b4, b5, b6], [b7, b8, b9]]
        [[l1, l2, u9], [l4, l5, u8], [l7, l8, u7]] [[d3, r2, r3], [d2, r5, r6], [d1, r8, r9]]
        [[u1, u2, u3], [u4, u5, u6], [r1, r4, r7]] [[l3, l6, l9], [d4, d5, d6], [d7, d8, d9]] (if t then h @ [[CHR ''F'', CHR 0x27]] else h)"
  by (simp add: apply_move_def map_of_move_map rotate_front_ccw)

lemma apply_move_R:
  "apply_move (mk [[f1, f2, f3], [f4, f5, f6], [f7, f8, f9]] [[b1, b2, b3], [b4, b5, b6], [b7, b8, b9]]
        [[l1, l2, l3], [l4, l5, l6], [l7, l8, l9]] [[r1, r2, r3], [r4, r5, r6], [r7, r8, r9]]
        [[u1, u2, u3], [u4, u5, u6], [u7, u8, u9]] [[d1, d2, d3], [d4, d5, d6], [d7, d8, d9]] h) ''R'' t =
   mk [[f1, f2, d3], [f4, f5, d6], [f7, f8, d9]] [[u9, b2, b3], [u6, b5, b6], [u3, b8, b9]]
        [[l1, l2, l3], [l4, l5, l6], [l7, l8, l9]] [[r7, r4, r1], [r8, r5, r2], [r9, r6, r3]]
        [[u1, u2, f3], [u4, u5, f6], [u7, u8, f9]] [[d1, d2, b7], [d4, d5, b4], [d7, d8, b1]] (if t then h @ [''R''] else h)"
  by (simp add: apply_move_def map_of_move_map rotate_right_cw)

lemma apply_move_Rp:
  "apply_move (mk [[f1, f2, f3], [f4, f5, f6], [f7, f8, f9]] [[b1, b2, b3], [b4, b5, b6], [b7, b8, b9]]
        [[l1, l2, l3], [l4, l5, l6], [l7, l8, l9]] [[r1, r2, r3], [r4, r5, r6], [r7, r8, r9]]
        [[u1, u2, u3], [u4, u5, u6], [u7, u8, u9]] [[d1, d2, d3], [d4, d5, d6], [d7, d8, d9]] h) [CHR ''R'', CHR 0x27] t =
   mk [[f1, f2, u3], [f4, f5, u6], [f7, f8, u9]] [[d9, b2, b3], [d6, b5, b6], [d3, b8, b9]]
        [[l1, l2, l3], [l4, l5, l6], [l7, l8, l9]] [[r3, r6, r9], [r2, r5, r8], [r1, r4, r7]]
        [[u1, u2, b7], [u4, u5, b4], [u7, u8, b1]] [[d1, d2, f3], [d4, d5, f6], [d7, d8, f9]] (if t then h @ [[CHR ''R'', CHR 0x27]] else h)"
  by (simp add: apply_move_def map_of_move_map rotate_right_ccw)

lemma apply_move_U:
  "apply_move (mk [[f1, f2, f3], [f4, f5, f6], [f7, f8, f9]] [[b1, b2, b3], [b4, b5, b6], [b7, b8, b9]]
        [[l1, l2, l3], [l4, l5, l6], [l7, l8, l9]] [[r1, r2, r3], [r4, r5, r6], [r7, r8, r9]]
        [[u1, u2, u3], [u4, u5, u6], [u7, u8, u9]] [[d1, d2, d3], [d4, d5, d6], [d7, d8, d9]] h) ''U'' t =
   mk [[r1, r2, r3], [f4, f5, f6], [f7, f8, f9]] [[l1, l2, l3], [b4, b5, b6], [b7, b8, b9]]
        [[f1, f2, f3], [l4, l5, l6], [l7, l8, l9]] [[b1, b2, b3], [r4, r5, r6], [r7, r8, r9]]
        [[u7, u4, u1], [u8, u5, u2], [u9, u6, u3]] [[d1, d2, d3], [d4, d5, d6], [d7, d8, d9]] (if t then h @ [''U''] else h)"
  by (simp add: apply_move_def map_of_move_map rotate_up_cw)

lemma apply_move_Up:
  "apply_move (mk [[f1, f2, f3], [f4, f5, f6], [f7, f8, f9]] [[b1, b2, b3], [b4, b5, b6], [b7, b8, b9]]
        [[l1, l2, l3], [l4, l5, l6], [l7, l8, l9]] [[r1, r2, r3], [r4, r5, r6], [r7, r8, r9]]
        [[u1, u2, u3], [u4, u5, u6], [u7, u8, u9]] [[d1, d2, d3], [d4, d5, d6], [d7, d8, d9]] h) [CHR ''U'', CHR 0x27] t =
   mk [[l1, l2, l3], [f4, f5, f6], [f7, f8, f9]] [[r1, r2, r3], [b4, b5, b6], [b7, b8, b9]]
        [[b1, b2, b3], [l4, l5, l6], [l7, l8, l9]] [[f1, f2, f3], [r4, r5, r6], [r7, r8, r9]]
        [[u3, u6, u9], [u2, u5, u8], [u1, u4, u7]] [[d1, d2, d3], [d4, d5, d6], [d7, d8, d9]] (if t then h @ [[CHR ''U'', CHR 0x27]] else h)"
  by (simp add: apply_move_def map_of_move_map rotate_up_ccw)

lemma apply_move_L:
  "apply_move (mk [[f1, f2, f3], [f4, f5, f6], [f7, f8, f9]] [[b1, b2, b3], [b4, b5, b6], [b7, b8, b9]]
        [[l1, l2, l3], [l4, l5, l6], [l7, l8, l9]] [[r1, r2, r3], [r4, r5, r6], [r7, r8, r9]]
        [[u1, u2, u3], [u4, u5, u6], [u7, u8, u9]] [[d1, d2, d3], [d4, d5, d6], [d7, d8, d9]] h) ''L'' t =
   mk [[u1, f2, f3], [u4, f5, f6], [u7, f8, f9]] [[b1, b2, d7], [b4, b5, d4], [b7, b8, d1]]
        [[l7, l4, l1], [l8, l5, l2], [l9, l6, l3]] [[r1, r2, r3], [r4, r5, r6], [r7, r8, r9]]
        [[b9, u2, u3], [b6, u5, u6], [b3, u8, u9]] [[f1, d2, d3], [f4, d5, d6], [f7, d8, d9]] (if t then h @ [''L''] else h)"
  by (simp add: apply_move_def map_of_move_map rotate_left_cw)

lemma apply_move_Lp:
  "apply_move (mk [[f1, f2, f3], [f4, f5, f6], [f7, f8, f9]] [[b1, b2, b3], [b4, b5, b6], [b7, b8, b9]]
        [[l1, l2, l3], [l4, l5, l6], [l7, l8, l9]] [[r1, r2, r3], [r4, r5, r6], [r7, r8, r9]]
        [[u1, u2, u3], [u4, u5, u6], [u7, u8, u9]] [[d1, d2, d3], [d4, d5, d6], [d7, d8, d9]] h) [CHR ''L'', CHR 0x27] t =
   mk [[d1, f2, f3], [d4, f5, f6], [d7, f8, f9]] [[b1, b2, u7], [b4, b5, u4], [b7, b8, u1]]
        [[l3, l6, l9], [l2, l5, l8], [l1, l4, l7]] [[r1, r2, r3], [r4, r5, r6], [r7, r8, r9]]
        [[f1, u2, u3], [f4, u5, u6], [f7, u8, u9]] [[b9, d2, d3], [b6, d5, d6], [b3, d8, d9]] (if t then h @ [[CHR ''L'', CHR 0x27]] else h)"
  by (simp add: apply_move_def map_of_move_map rotate_left_ccw)

lemma apply_move_D:
  "apply_move (mk [[f1, f2, f3], [f4, f5, f6], [f7, f8, f9]] [[b1, b2, b3], [b4, b5, b6], [b7, b8, b9]]
        [[l1, l2, l3], [l4, l5, l6], [l7, l8, l9]] [[r1, r2, r3], [r4, r5, r6], [r7, r8, r9]]
        [[u1, u2, u3], [u4, u5, u6], [u7, u8, u9]] [[d1, d2, d3], [d4, d5, d6], [d7, d8, d9]] h) ''D'' t =
   mk [[f1, f2, f3], [f4, f5, f6], [l7, l8, l9]] [[b1, b2, b3], [b4, b5, b6], [r7, r8, r9]]
        [[l1, l2, l3], [l4, l5, l6], [b7, b8, b9]] [[r1, r2, r3], [r4, r5, r6], [f7, f8, f9]]
        [[u1, u2, u3], [u4, u5, u6], [u7, u8, u9]] [[d7, d4, d1], [d8, d5, d2], [d9, d6, d3]] (if t then h @ [''D''] else h)"
  by (simp add: apply_move_def map_of_move_map rotate_down_cw)

lemma apply_move_Dp:
  "apply_move (mk [[f1, f2, f3], [f4, f5, f6], [f7, f8, f9]] [[b1, b2, b3], [b4, b5, b6], [b7, b8, b9]]
        [[l1, l2, l3], [l4, l5, l6], [l7, l8, l9]] [[r1, r2, r3], [r4, r5, r6], [r7, r8, r9]]
        [[u1, u2, u3], [u4, u5, u6], [u7, u8, u9]] [[d1, d2, d3], [d4, d5, d6], [d7, d8, d9]] h) [CHR ''D'', CHR 0x27] t =
   mk [[f1, f2, f3], [f4, f5, f6], [r7, r8, r9]] [[b1, b2, b3], [b4, b5, b6], [l7, l8, l9]]
        [[l1, l2, l3], [l4, l5, l6], [f7, f8, f9]] [[r1, r2, r3], [r4, r5, r6], [b7, b8, b9]]
        [[u1, u2, u3], [u4, u5, u6], [u7, u8, u9]] [[d3, d6, d9], [d2, d5, d8], [d1, d4, d7]] (if t then h @ [[CHR ''D'', CHR 0x27]] else h)"
  by (simp add: apply_move_def map_of_move_map rotate_down_ccw)

lemma apply_move_B:
  "apply_move (mk [[f1, f2, f3], [f4, f5, f6], [f7, f8, f9]] [[b1, b2, b3], [b4, b5, b6], [b7, b8, b9]]
        [[l1, l2, l3], [l4, l5, l6], [l7, l8, l9]] [[r1, r2, r3], [r4, r5, r6], [r7, r8, r9]]
        [[u1, u2, u3], [u4, u5, u6], [u7, u8, u9]] [[d1, d2, d3], [d4, d5, d6], [d7, d8, d9]] h) ''B'' t =
   mk [[f1, f2, f3], [f4, f5, f6], [f7, f8, f9]] [[b7, b4, b1], [b8, b5, b2], [b9, b6, b3]]
        [[u3, l2, l3], [u2, l5, l6], [u1, l8, l9]] [[r1, r2, d9], [r4, r5, d8], [r7, r8, d7]]
        [[r3, r6, r9], [u4, u5, u6], [u7, u8, u9]] [[d1, d2, d3], [d4, d5, d6], [l1, l4, l7]] (if t then h @ [''B''] else h)"
  by (simp add: apply_move_def map_of_move_map rotate_back_cw)

lemma apply_move_Bp:
  "apply_move (mk [[f1, f2, f3], [f4, f5, f6], [f7, f8, f9]] [[b1, b2, b3], [b4, b5, b6], [b7, b8, b9]]
        [[l1, l2, l3], [l4, l5, l6], [l7, l8, l9]] [[r1, r2, r3], [r4, r5, r6], [r7, r8, r9]]
        [[u1, u2, u3], [u4, u5, u6], [u7, u8, u9]] [[d1, d2, d3], [d4, d5, d6], [d7, d8, d9]] h) [CHR ''B'', CHR 0x27] t =
   mk [[f1, f2, f3], [f4, f5, f6], [f7, f8, f9]] [[b3, b6, b9], [b2, b5, b8], [b1, b4, b7]]
        [[d7, l2, l3], [d8, l5, l6], [d9, l8, l9]] [[r1, r2, u1], [r4, r5, u2], [r7, r8, u3]]
        [[l7, l4, l1], [u4, u5, u6], [u7, u8, u9]] [[d1, d2, d3], [d4, d5, d6], [r9, r6, r3]] (if t then h @ [[CHR ''B'', CHR 0x27]] else h)"
  by (simp add: apply_move_def map_of_move_map rotate_back_ccw)

lemmas apply_move_mk = apply_move_F apply_move_Fp apply_move_R apply_move_Rp apply_move_U apply_move_Up apply_move_L apply_move_Lp apply_move_D apply_move_Dp apply_move_B apply_move_Bp

subsection \<open>Well-formed cubes are cubes of 54 facelets\<close>

lemma wf_cube_mk:
  assumes "wf_cube s"
  obtains f1 f2 f3 f4 f5 f6 f7 f8 f9 b1 b2 b3 b4 b5 b6 b7 b8 b9
    l1 l2 l3 l4 l5 l6 l7 l8 l9 r1 r2 r3 r4 r5 r6 r7 r8 r9
    u1 u2 u3 u4 u5 u6 u7 u8 u9 d1 d2 d3 d4 d5 d6 d7 d8 d9 h
  where "s = mk [[f1, f2, f3], [f4, f5, f6], [f7, f8, f9]] [[b1, b2, b3], [b4, b5, b6], [b7, b8, b9]]
        [[l1, l2, l3], [l4, l5, l6], [l7, l8, l9]] [[r1, r2, r3], [r4, r5, r6], [r7, r8, r9]]
        [[u1, u2, u3], [u4, u5, u6], [u7, u8, u9]] [[d1, d2, d3], [d4, d5, d6], [d7, d8, d9]] h"
proof -
  from assms have w: "wf_face (faces s FRONT)" "wf_face (faces s BACK)" "wf_face (faces s LEFT)"
    "wf_face (faces s RIGHT)" "wf_face (faces s UP)" "wf_face (faces s DOWN)"
    by (simp_all add: wf_cube_def)
  from w(1) obtain f1 f2 f3 f4 f5 f6 f7 f8 f9
    where F: "faces s FRONT = [[f1, f2, f3], [f4, f5, f6], [f7, f8, f9]]" by (rule wf_face_grid)
  from w(2) obtain b1 b2 b3 b4 b5 b6 b7 b8 b9
    where B: "faces s BACK = [[b1, b2, b3], [b4, b5, b6], [b7, b8, b9]]" by (rule wf_face_grid)
  from w(3) obtain l1 l2 l3 l4 l5 l6 l7 l8 l9
    where L: "faces s LEFT = [[l1, l2, l3], [l4, l5, l6], [l7, l8, l9]]" by (rule wf_face_grid)
  from w(4) obtain r1 r2 r3 r4 r5 r6 r7 r8 r9
    where R: "faces s RIGHT = [[r1, r2, r3], [r4, r5, r6], [r7, r8, r9]]" by (rule wf_face_grid)
  from w(5) obtain u1 u2 u3 u4 u5 u6 u7 u8 u9
    where U: "faces s UP = [[u1, u2, u3], [u4, u5, u6], [u7, u8, u9]]" by (rule wf_face_grid)
  from w(6) obtain d1 d2 d3 d4 d5 d6 d7 d8 d9
    where D: "faces s DOWN = [[d1, d2, d3], [d4, d5, d6], [d7, d8, d9]]" by (rule wf_face_grid)
  have "s = mk (faces s FRONT) (faces s BACK) (faces s LEFT) (faces s RIGHT) (faces s UP)
          (faces s DOWN) (move_history s)"
    by (rule mk_faces [symmetric])
  then have "s = mk [[f1, f2, f3], [f4, f5, f6], [f7, f8, f9]] [[b1, b2, b3], [b4, b5, b6], [b7, b8, b9]]
        [[l1, l2, l3], [l4, l5, l6], [l7, l8, l9]] [[r1, r2, r3], [r4, r5, r6], [r7, r8, r9]]
        [[u1, u2, u3], [u4, u5, u6], [u7, u8, u9]] [[d1, d2, d3], [d4, d5, d6], [d7, d8, d9]] (move_history s)"
    by (simp only: F B L R U D)
  then show ?thesis by (rule that)
qed

lemma moves_cases:
  assumes "m \<in> set moves"
  obtains "m = ''F''" | "m = [CHR ''F'', CHR 0x27]" | "m = ''R''" | "m = [CHR ''R'', CHR 0x27]"
   | "m = ''U''" | "m = [CHR ''U'', CHR 0x27]" | "m = ''L''" | "m = [CHR ''L'', CHR 0x27]"
   | "m = ''D''" | "m = [CHR ''D'', CHR 0x27]" | "m = ''B''" | "m = [CHR ''B'', CHR 0x27]"
  using assms unfolding moves_def by auto

lemma inv_mk:
  assumes "m \<in> set moves"
  shows "faces (apply_move (apply_move (mk [[f1, f2, f3], [f4, f5, f6], [f7, f8, f9]] [[b1, b2, b3], [b4, b5, b6], [b7, b8, b9]]
        [[l1, l2, l3], [l4, l5, l6], [l7, l8, l9]] [[r1, r2, r3], [r4, r5, r6], [r7, r8, r9]]
        [[u1, u2, u3], [u4, u5, u6], [u7, u8, u9]] [[d1, d2, d3], [d4, d5, d6], [d7, d8, d9]] h) m t1) (get_reverse_move m) t2) = faces (mk [[f1, f2, f3], [f4, f5, f6], [f7, f8, f9]] [[b1, b2, b3], [b4, b5, b6], [b7, b8, b9]]
        [[l1, l2, l3], [l4, l5, l6], [l7, l8, l9]] [[r1, r2, r3], [r4, r5, r6], [r7, r8, r9]]
        [[u1, u2, u3], [u4, u5, u6], [u7, u8, u9]] [[d1, d2, d3], [d4, d5, d6], [d7, d8, d9]] h)"
  using assms
  by (cases rule: moves_cases)
     (simp_all only: get_reverse_move_moves apply_move_mk, simp_all add: mk_def)

lemma wf_mk: "wf_cube (mk [[f1, f2, f3], [f4, f5, f6], [f7, f8, f9]] [[b1, b2, b3], [b4, b5, b6], [b7, b8, b9]]
        [[l1, l2, l3], [l4, l5, l6], [l7, l8, l9]] [[r1, r2, r3], [r4, r5, r6], [r7, r8, r9]]
        [[u1, u2, u3], [u4, u5, u6], [u7, u8, u9]] [[d1, d2, d3], [d4, d5, d6], [d7, d8, d9]] h)"
  by (simp add: wf_cube_def wf_face_def)

lemma wf_apply_move_mk:
  assumes "m \<in> set moves"
  shows "wf_cube (apply_move (mk [[f1, f2, f3], [f4, f5, f6], [f7, f8, f9]] [[b1, b2, b3], [b4, b5, b6], [b7, b8, b9]]
        [[l1, l2, l3], [l4, l5, l6], [l7, l8, l9]] [[r1, r2, r3], [r4, r5, r6], [r7, r8, r9]]
        [[u1, u2, u3], [u4, u5, u6], [u7, u8, u9]] [[d1, d2, d3], [d4, d5, d6], [d7, d8, d9]] h) m t)"
  using assms
  by (cases rule: moves_cases) (simp_all only: apply_move_mk wf_mk)

lemma facelets_mk:
  "facelets (mk [[f1, f2, f3], [f4, f5, f6], [f7, f8, f9]] [[b1, b2, b3], [b4, b5, b6], [b7, b8, b9]]
        [[l1, l2, l3], [l4, l5, l6], [l7, l8, l9]] [[r1, r2, r3], [r4, r5, r6], [r7, r8, r9]]
        [[u1, u2, u3], [u4, u5, u6], [u7, u8, u9]] [[d1, d2, d3], [d4, d5, d6], [d7, d8, d9]] h) =
   [f1, f2, f3, f4, f5, f6, f7, f8, f9, b1, b2, b3, b4, b5, b6, b7, b8, b9,
    l1, l2, l3, l4, l5, l6, l7, l8, l9, r1, r2, r3, r4, r5, r6, r7, r8, r9,
    u1, u2, u3, u4, u5, u6, u7, u8, u9, d1, d2, d3, d4, d5, d6, d7, d8, d9]"
  by (simp add: facelets_def)

lemma mset_apply_move_mk:
  assumes "m \<in> set moves"
  shows "mset (facelets (apply_move (mk [[f1, f2, f3], [f4, f5, f6], [f7, f8, f9]] [[b1, b2, b3], [b4, b5, b6], [b7, b8, b9]]
        [[l1, l2, l3], [l4, l5, l6], [l7, l8, l9]] [[r1, r2, r3], [r4, r5, r6], [r7, r8, r9]]
        [[u1, u2, u3], [u4, u5, u6], [u7, u8, u9]] [[d1, d2, d3], [d4, d5, d6], [d7, d8, d9]] h) m t)) = mset (facelets (mk [[f1, f2, f3], [f4, f5, f6], [f7, f8, f9]] [[b1, b2, b3], [b4, b5, b6], [b7, b8, b9]]
        [[l1, l2, l3], [l4, l5, l6], [l7, l8, l9]] [[r1, r2, r3], [r4, r5, r6], [r7, r8, r9]]
        [[u1, u2, u3], [u4, u5, u6], [u7, u8, u9]] [[d1, d2, d3], [d4, d5, d6], [d7, d8, d9]] h))"
  using assms
  by (cases rule: moves_cases) (simp_all only: apply_move_mk facelets_mk, simp_all)

lemma apply_move_invalid: "m \<notin> set moves \<Longrightarrow> apply_move s m t = s"
proof -
  assume "m \<notin> set moves"
  then have "m \<notin> fst ` set move_map" by (simp add: moves_def move_map_def)
  then have "map_of move_map m = None" by (simp add: map_of_eq_None_iff)
  then show ?thesis by (simp add: apply_move_def)
qed

lemma wf_apply_move: "wf_cube s \<Longrightarrow> wf_cube (apply_move s m t)"
proof (cases "m \<in> set moves")
  case True
  assume "wf_cube s"
  then show ?thesis by (rule wf_cube_mk) (simp only: wf_apply_move_mk [OF True])
next
  case False
  assume "wf_cube s"
  with False show ?thesis by (simp add: apply_move_invalid)
qed

lemma mset_apply_move:
  assumes "wf_cube s"
  shows "mset (facelets (apply_move s m t)) = mset (facelets s)"
proof (cases "m \<in> set moves")
  case True
  from assms show ?thesis by (rule wf_cube_mk) (simp only: mset_apply_move_mk [OF True])
next
  case False
  then show ?thesis by (simp add: apply_move_invalid)
qed

lemma init_cube_mk:
  "init_cube =
   mk [[CHR ''G'', CHR ''G'', CHR ''G''], [CHR ''G'', CHR ''G'', CHR ''G''], [CHR ''G'', CHR ''G'', CHR ''G'']]
      [[CHR ''B'', CHR ''B'', CHR ''B''], [CHR ''B'', CHR ''B'', CHR ''B''], [CHR ''B'', CHR ''B'', CHR ''B'']]
      [[CHR ''O'', CHR ''O'', CHR ''O''], [CHR ''O'', CHR ''O'', CHR ''O''], [CHR ''O'', CHR ''O'', CHR ''O'']]
      [[CHR ''R'', CHR ''R'', CHR ''R''], [CHR ''R'', CHR ''R'', CHR ''R''], [CHR ''R'', CHR ''R'', CHR ''R'']]
      [[CHR ''W'', CHR ''W'', CHR ''W''], [CHR ''W'', CHR ''W'', CHR ''W''], [CHR ''W'', CHR ''W'', CHR ''W'']]
      [[CHR ''Y'', CHR ''Y'', CHR ''Y''], [CHR ''Y'', CHR ''Y'', CHR ''Y''], [CHR ''Y'', CHR ''Y'', CHR ''Y'']] []"
  by (simp add: init_cube_def mk_def solved_faces_def fun_eq_iff numeral_3_eq_3 split: face.splits)

lemma wf_init_cube: "wf_cube init_cube"
  by (simp only: init_cube_mk wf_mk)

lemma reachable_wf: "reachable s \<Longrightarrow> wf_cube s"
  by (induction rule: reachable.induct) (simp_all add: wf_init_cube wf_apply_move)

lemma reachable_mset: "reachable s \<Longrightarrow> mset (facelets s) = mset (facelets init_cube)"
  by (induction rule: reachable.induct) (simp_all add: reachable_wf mset_apply_move)

lemma facelets_init_cube:
  "facelets init_cube = ''GGGGGGGGGBBBBBBBBBOOOOOOOOORRRRRRRRRWWWWWWWWWYYYYYYYYY''"
  by (simp add: init_cube_mk facelets_mk)

subsection \<open>The state string\<close>

lemma fold_append_col: "fold (\<lambda>col state. state @ [col]) row state = state @ row"
  by (induction row arbitrary: state) simp_all

lemma fold_append_rows:
  "fold (\<lambda>row state. fold (\<lambda>col state. state @ [col]) row state) g state = state @ concat g"
  by (induction g arbitrary: state) (simp_all add: fold_append_col)

lemma get_state_string_concat:
  "get_state_string s = concat (map (\<lambda>f. concat (faces s f)) [UP, RIGHT, FRONT, DOWN, LEFT, BACK])"
  by (simp add: get_state_string_def fold_append_rows)

lemma get_state_string_mk:
  "get_state_string (mk [[f1, f2, f3], [f4, f5, f6], [f7, f8, f9]] [[b1, b2, b3], [b4, b5, b6], [b7, b8, b9]]
        [[l1, l2, l3], [l4, l5, l6], [l7, l8, l9]] [[r1, r2, r3], [r4, r5, r6], [r7, r8, r9]]
        [[u1, u2, u3], [u4, u5, u6], [u7, u8, u9]] [[d1, d2, d3], [d4, d5, d6], [d7, d8, d9]] h) =
   [u1, u2, u3, u4, u5, u6, u7, u8, u9, r1, r2, r3, r4, r5, r6, r7, r8, r9,
    f1, f2, f3, f4, f5, f6, f7, f8, f9, d1, d2, d3, d4, d5, d6, d7, d8, d9,
    l1, l2, l3, l4, l5, l6, l7, l8, l9, b1, b2, b3, b4, b5, b6, b7, b8, b9]"
  by (simp add: get_state_string_concat)

lemma is_solved_mk:
  "is_solved (mk [[f1, f2, f3], [f4, f5, f6], [f7, f8, f9]] [[b1, b2, b3], [b4, b5, b6], [b7, b8, b9]]
        [[l1, l2, l3], [l4, l5, l6], [l7, l8, l9]] [[r1, r2, r3], [r4, r5, r6], [r7, r8, r9]]
        [[u1, u2, u3], [u4, u5, u6], [u7, u8, u9]] [[d1, d2, d3], [d4, d5, d6], [d7, d8, d9]] h) =
   (get_state_string (mk [[f1, f2, f3], [f4, f5, f6], [f7, f8, f9]] [[b1, b2, b3], [b4, b5, b6], [b7, b8, b9]]
        [[l1, l2, l3], [l4, l5, l6], [l7, l8, l9]] [[r1, r2, r3], [r4, r5, r6], [r7, r8, r9]]
        [[u1, u2, u3], [u4, u5, u6], [u7, u8, u9]] [[d1, d2, d3], [d4, d5, d6], [d7, d8, d9]] h) = ''WWWWWWWWWRRRRRRRRRGGGGGGGGGYYYYYYYYYOOOOOOOOOBBBBBBBBB'')"
  by (simp add: is_solved_def target_colors_def get_state_string_mk)

lemma gss_inj_mk:
  "get_state_string (mk [[f1, f2, f3], [f4, f5, f6], [f7, f8, f9]] [[b1, b2, b3], [b4, b5, b6], [b7, b8, b9]]
        [[l1, l2, l3], [l4, l5, l6], [l7, l8, l9]] [[r1, r2, r3], [r4, r5, r6], [r7, r8, r9]]
        [[u1, u2, u3], [u4, u5, u6], [u7, u8, u9]] [[d1, d2, d3], [d4, d5, d6], [d7, d8, d9]] h) = get_state_string (mk [[f1', f2', f3'], [f4', f5', f6'], [f7', f8', f9']] [[b1', b2', b3'], [b4', b5', b6'], [b7', b8', b9']]
        [[l1', l2', l3'], [l4', l5', l6'], [l7', l8', l9']] [[r1', r2', r3'], [r4', r5', r6'], [r7', r8', r9']]
        [[u1', u2', u3'], [u4', u5', u6'], [u7', u8', u9']] [[d1', d2', d3'], [d4', d5', d6'], [d7', d8', d9']] h') \<Longrightarrow> faces (mk [[f1, f2, f3], [f4, f5, f6], [f7, f8, f9]] [[b1, b2, b3], [b4, b5, b6], [b7, b8, b9]]
        [[l1, l2, l3], [l4, l5, l6], [l7, l8, l9]] [[r1, r2, r3], [r4, r5, r6], [r7, r8, r9]]
        [[u1, u2, u3], [u4, u5, u6], [u7, u8, u9]] [[d1, d2, d3], [d4, d5, d6], [d7, d8, d9]] h) = faces (mk [[f1', f2', f3'], [f4', f5', f6'], [f7', f8', f9']] [[b1', b2', b3'], [b4', b5', b6'], [b7', b8', b9']]
        [[l1', l2', l3'], [l4', l5', l6'], [l7', l8', l9']] [[r1', r2', r3'], [r4', r5', r6'], [r7', r8', r9']]
        [[u1', u2', u3'], [u4', u5', u6'], [u7', u8', u9']] [[d1', d2', d3'], [d4', d5', d6'], [d7', d8', d9']] h')"
  by (simp only: get_state_string_mk) (simp add: mk_def)

lemma is_solved_iff_string:
  "wf_cube s \<Longrightarrow>
   is_solved s = (get_state_string s = ''WWWWWWWWWRRRRRRRRRGGGGGGGGGYYYYYYYYYOOOOOOOOOBBBBBBBBB'')"
  by (erule wf_cube_mk) (simp only: is_solved_mk)

lemma get_state_string_inj:
  assumes "wf_cube s" "wf_cube s'" "get_state_string s = get_state_string s'"
  shows "faces s = faces s'"
proof -
  from assms(1) obtain f1 f2 f3 f4 f5 f6 f7 f8 f9 b1 b2 b3 b4 b5 b6 b7 b8 b9
    l1 l2 l3 l4 l5 l6 l7 l8 l9 r1 r2 r3 r4 r5 r6 r7 r8 r9
    u1 u2 u3 u4 u5 u6 u7 u8 u9 d1 d2 d3 d4 d5 d6 d7 d8 d9 h
    where s: "s = mk [[f1, f2, f3], [f4, f5, f6], [f7, f8, f9]] [[b1, b2, b3], [b4, b5, b6], [b7, b8, b9]]
        [[l1, l2, l3], [l4, l5, l6], [l7, l8, l9]] [[r1, r2, r3], [r4, r5, r6], [r7, r8, r9]]
        [[u1, u2, u3], [u4, u5, u6], [u7, u8, u9]] [[d1, d2, d3], [d4, d5, d6], [d7, d8, d9]] h" by (rule wf_cube_mk)
  from assms(2) obtain f1' f2' f3' f4' f5' f6' f7' f8' f9' b1' b2' b3' b4' b5' b6' b7' b8' b9'
    l1' l2' l3' l4' l5' l6' l7' l8' l9' r1' r2' r3' r4' r5' r6' r7' r8' r9'
    u1' u2' u3' u4' u5' u6' u7' u8' u9' d1' d2' d3' d4' d5' d6' d7' d8' d9' h'
    where s': "s' = mk [[f1', f2', f3'], [f4', f5', f6'], [f7', f8', f9']] [[b1', b2', b3'], [b4', b5', b6'], [b7', b8', b9']]
        [[l1', l2', l3'], [l4', l5', l6'], [l7', l8', l9']] [[r1', r2', r3'], [r4', r5', r6'], [r7', r8', r9']]
        [[u1', u2', u3'], [u4', u5', u6'], [u7', u8', u9']] [[d1', d2', d3'], [d4', d5', d6'], [d7', d8', d9']] h'" by (rule wf_cube_mk)
  from assms(3) show ?thesis unfolding s s' by (rule gss_inj_mk)
qed

subsection \<open>The history solution\<close>

lemma get_perfect_solution_map:
  "get_perfect_solution s = map get_reverse_move (rev (move_history s))"
proof -
  have "fold (\<lambda>move solution. solution @ [get_reverse_move move]) xs acc
        = acc @ map get_reverse_move xs" for xs acc
    by (induction xs arbitrary: acc) simp_all
  then show ?thesis by (simp add: get_perfect_solution_def)
qed

lemma scenario_F_R:
  "move_history (apply_move (apply_move init_cube ''F'' True) ''R'' True) = [''F'', ''R'']"
  "get_perfect_solution (apply_move (apply_move init_cube ''F'' True) ''R'' True)
   = [[CHR ''R'', CHR 0x27], [CHR ''F'', CHR 0x27]]"
  "is_solved (replay (apply_move (apply_move init_cube ''F'' True) ''R'' True)
     (get_perfect_solution (apply_move (apply_move init_cube ''F'' True) ''R'' True)))"
  by (simp_all add: init_cube_mk apply_move_mk get_perfect_solution_map get_reverse_move_moves
        replay_def is_solved_def target_colors_def)

section \<open>The claims about the cube and its moves\<close>

text \<open>
  C1: for each of the twelve canonical tokens \<open>m\<close> and every 3-by-3 cube \<open>s\<close>, applying
  \<open>m\<close> and then \<open>get_reverse_move m\<close> gives back the grid of \<open>s\<close>, face by face and
  facelet by facelet, whether or not the moves are tracked in the history.
\<close>

theorem move_then_inverse_restores_grid:
  assumes "wf_cube s" and "m \<in> set moves"
  shows "faces (apply_move (apply_move s m t1) (get_reverse_move m) t2) = faces s"
proof -
  from assms(1) obtain f1 f2 f3 f4 f5 f6 f7 f8 f9 b1 b2 b3 b4 b5 b6 b7 b8 b9
    l1 l2 l3 l4 l5 l6 l7 l8 l9 r1 r2 r3 r4 r5 r6 r7 r8 r9
    u1 u2 u3 u4 u5 u6 u7 u8 u9 d1 d2 d3 d4 d5 d6 d7 d8 d9 h
    where s: "s = mk [[f1, f2, f3], [f4, f5, f6], [f7, f8, f9]] [[b1, b2, b3], [b4, b5, b6], [b7, b8, b9]]
        [[l1, l2, l3], [l4, l5, l6], [l7, l8, l9]] [[r1, r2, r3], [r4, r5, r6], [r7, r8, r9]]
        [[u1, u2, u3], [u4, u5, u6], [u7, u8, u9]] [[d1, d2, d3], [d4, d5, d6], [d7, d8, d9]] h" by (rule wf_cube_mk)
  show ?thesis unfolding s by (rule inv_mk [OF assms(2)])
qed

theorem move_then_inverse_restores_grid_witness:
  "wf_cube init_cube \<and> ''F'' \<in> set moves \<and>
   faces (apply_move (apply_move init_cube ''F'' True) (get_reverse_move ''F'') True)
     = faces init_cube"
proof -
  have m: "''F'' \<in> set moves" by (simp add: moves_def)
  from move_then_inverse_restores_grid [OF wf_init_cube m] wf_init_cube m
  show ?thesis by simp
qed

text \<open>
  C3: every state reachable from the solved cube by canonical moves has 54 facelets, nine
  of each of the six colours; and a canonical move applied to any 3-by-3 cube keeps the
  multiset of its facelet colours.
\<close>

theorem color_multiset_invariant:
  "(reachable s \<longrightarrow>
      length (facelets s) = 54 \<and>
      count (mset (facelets s)) CHR ''W'' = 9 \<and> count (mset (facelets s)) CHR ''Y'' = 9 \<and>
      count (mset (facelets s)) CHR ''G'' = 9 \<and> count (mset (facelets s)) CHR ''B'' = 9 \<and>
      count (mset (facelets s)) CHR ''O'' = 9 \<and> count (mset (facelets s)) CHR ''R'' = 9) \<and>
   (wf_cube c \<and> m \<in> set moves \<longrightarrow>
      mset (facelets (apply_move c m t)) = mset (facelets c))"
proof (intro conjI impI)
  assume r: "reachable s"
  then have eq: "mset (facelets s) = mset (facelets init_cube)" by (rule reachable_mset)
  from eq have "size (mset (facelets s)) = size (mset (facelets init_cube))" by simp
  then show "length (facelets s) = 54" by (simp add: facelets_init_cube)
  show "count (mset (facelets s)) CHR ''W'' = 9" unfolding eq facelets_init_cube by simp
  show "count (mset (facelets s)) CHR ''Y'' = 9" unfolding eq facelets_init_cube by simp
  show "count (mset (facelets s)) CHR ''G'' = 9" unfolding eq facelets_init_cube by simp
  show "count (mset (facelets s)) CHR ''B'' = 9" unfolding eq facelets_init_cube by simp
  show "count (mset (facelets s)) CHR ''O'' = 9" unfolding eq facelets_init_cube by simp
  show "count (mset (facelets s)) CHR ''R'' = 9" unfolding eq facelets_init_cube by simp
next
  assume "wf_cube c \<and> m \<in> set moves"
  then show "mset (facelets (apply_move c m t)) = mset (facelets c)"
    by (simp add: mset_apply_move)
qed

theorem color_multiset_invariant_witness:
  "reachable (apply_move init_cube ''R'' True) \<and>
   length (facelets (apply_move init_cube ''R'' True)) = 54 \<and>
   count (mset (facelets (apply_move init_cube ''R'' True))) CHR ''W'' = 9 \<and>
   wf_cube init_cube \<and> ''R'' \<in> set moves \<and>
   mset (facelets (apply_move init_cube ''R'' True)) = mset (facelets init_cube)"
proof -
  have m: "''R'' \<in> set moves" by (simp add: moves_def)
  have r: "reachable (apply_move init_cube ''R'' True)"
    by (rule reachable_move [OF reachable_init m])
  from color_multiset_invariant [of "apply_move init_cube ''R'' True" init_cube "''R''" True]
    r m wf_init_cube
  show ?thesis by blast
qed

text \<open>
  C5: \<open>get_perfect_solution\<close> returns the inverses of the moves of the history, the last
  move first, and the empty list for an empty history. From the solved cube, after
  \<open>F\<close> and \<open>R\<close> the history is \<open>[F, R]\<close>, the solution is \<open>[R', F']\<close>, and replaying it
  gives a solved cube.
\<close>

theorem perfect_solution_is_reversed_history:
  "get_perfect_solution s = map get_reverse_move (rev (move_history s)) \<and>
   get_perfect_solution (s\<lparr>move_history := []\<rparr>) = [] \<and>
   move_history (apply_move (apply_move init_cube ''F'' True) ''R'' True) = [''F'', ''R''] \<and>
   get_perfect_solution (apply_move (apply_move init_cube ''F'' True) ''R'' True)
     = [[CHR ''R'', CHR 0x27], [CHR ''F'', CHR 0x27]] \<and>
   is_solved (replay (apply_move (apply_move init_cube ''F'' True) ''R'' True)
     (get_perfect_solution (apply_move (apply_move init_cube ''F'' True) ''R'' True)))"
proof (intro conjI)
  show "get_perfect_solution s = map get_reverse_move (rev (move_history s))"
    by (rule get_perfect_solution_map)
  show "get_perfect_solution (s\<lparr>move_history := []\<rparr>) = []"
    by (simp add: get_perfect_solution_def)
qed (rule scenario_F_R)+

text \<open>
  C6: the state string of a 3-by-3 cube has 54 characters, the facelets of the faces Up,
  Right, Front, Down, Left, Back in this order, each face row by row and each row from left
  to right; and two cubes whose grids differ have different state strings.
\<close>

theorem state_string_canonical_and_injective:
  "wf_cube s \<and> wf_cube s' \<longrightarrow>
     length (get_state_string s) = 54 \<and>
     get_state_string s
       = concat (map (\<lambda>f. concat (faces s f)) [UP, RIGHT, FRONT, DOWN, LEFT, BACK]) \<and>
     (faces s \<noteq> faces s' \<longrightarrow> get_state_string s \<noteq> get_state_string s')"
proof (intro impI conjI)
  assume w: "wf_cube s \<and> wf_cube s'"
  then have "wf_cube s" by simp
  then show "length (get_state_string s) = 54"
    by (rule wf_cube_mk) (simp only: get_state_string_mk, simp)
  show "get_state_string s
       = concat (map (\<lambda>f. concat (faces s f)) [UP, RIGHT, FRONT, DOWN, LEFT, BACK])"
    by (rule get_state_string_concat)
  assume "faces s \<noteq> faces s'"
  with w show "get_state_string s \<noteq> get_state_string s'"
    using get_state_string_inj by blast
qed

theorem state_string_canonical_and_injective_witness:
  "wf_cube init_cube \<and> wf_cube (apply_move init_cube ''U'' True) \<and>
   length (get_state_string init_cube) = 54 \<and>
   faces init_cube \<noteq> faces (apply_move init_cube ''U'' True) \<and>
   get_state_string init_cube \<noteq> get_state_string (apply_move init_cube ''U'' True)"
proof -
  have w: "wf_cube (apply_move init_cube ''U'' True)"
    by (rule wf_apply_move [OF wf_init_cube])
  have "faces init_cube FRONT \<noteq> faces (apply_move init_cube ''U'' True) FRONT"
    by (simp add: init_cube_mk apply_move_mk)
  then have d: "faces init_cube \<noteq> faces (apply_move init_cube ''U'' True)" by metis
  from state_string_canonical_and_injective [of init_cube "apply_move init_cube ''U'' True"]
    wf_init_cube w d
  show ?thesis by blast
qed

text \<open>
  C7: a move string that is not one of the twelve canonical tokens changes nothing:
  \<open>apply_move\<close> returns the cube as it was, grid and history, with or without history
  tracking.
\<close>

theorem invalid_move_changes_nothing:
  "m \<notin> set moves \<Longrightarrow> apply_move s m track_history = s"
  by (rule apply_move_invalid)

theorem invalid_move_changes_nothing_witness:
  "''X'' \<notin> set moves \<and> apply_move init_cube ''X'' True = init_cube \<and>
   ''F2'' \<notin> set moves \<and> apply_move init_cube ''F2'' False = init_cube"
proof -
  have a: "''X'' \<notin> set moves" and b: "''F2'' \<notin> set moves" by (simp_all add: moves_def)
  from invalid_move_changes_nothing [OF a, of init_cube True]
    invalid_move_changes_nothing [OF b, of init_cube False] a b
  show ?thesis by simp
qed

text \<open>
  C10: for every 3-by-3 grid, \<open>is_solved\<close> holds exactly when the state string is nine
  \<open>W\<close>, nine \<open>R\<close>, nine \<open>G\<close>, nine \<open>Y\<close>, nine \<open>O\<close> and nine \<open>B\<close>.
\<close>

theorem is_solved_iff_solved_state_string:
  "wf_cube s \<Longrightarrow>
   is_solved s
     = (get_state_string s = ''WWWWWWWWWRRRRRRRRRGGGGGGGGGYYYYYYYYYOOOOOOOOOBBBBBBBBB'')"
  by (rule is_solved_iff_string)

theorem is_solved_iff_solved_state_string_witness:
  "wf_cube init_cube \<and> is_solved init_cube \<and>
   get_state_string init_cube = ''WWWWWWWWWRRRRRRRRRGGGGGGGGGYYYYYYYYYOOOOOOOOOBBBBBBBBB'' \<and>
   wf_cube (apply_move init_cube ''F'' False) \<and> \<not> is_solved (apply_move init_cube ''F'' False)"
proof -
  have g: "get_state_string init_cube
      = ''WWWWWWWWWRRRRRRRRRGGGGGGGGGYYYYYYYYYOOOOOOOOOBBBBBBBBB''"
    by (simp add: init_cube_mk get_state_string_mk)
  have w: "wf_cube (apply_move init_cube ''F'' False)" by (rule wf_apply_move [OF wf_init_cube])
  have n: "get_state_string (apply_move init_cube ''F'' False)
      \<noteq> ''WWWWWWWWWRRRRRRRRRGGGGGGGGGYYYYYYYYYOOOOOOOOOBBBBBBBBB''"
    by (simp add: init_cube_mk apply_move_mk get_state_string_mk)
  from is_solved_iff_solved_state_string [OF wf_init_cube]
    is_solved_iff_solved_state_string [OF w] g n wf_init_cube w
  show ?thesis by simp
qed

section \<open>The answer of the external solver\<close>

lemma fold_kociemba_row:
  "fold (\<lambda>color result. result @ [kociemba_letter color]) row result
   = result @ map kociemba_letter row"
  by (induction row arbitrary: result) simp_all

lemma fold_kociemba_rows:
  "fold (\<lambda>row result. fold (\<lambda>color result. result @ [kociemba_letter color]) row result)
     g result = result @ map kociemba_letter (concat g)"
  by (induction g arbitrary: result) (simp_all add: fold_kociemba_row)

lemma get_kociemba_string_map:
  "get_kociemba_string True s = Some (map kociemba_letter (get_state_string s))"
  by (simp add: get_kociemba_string_def fold_kociemba_rows get_state_string_concat)

lemma validate_moves_invalid:
  "t \<in> set ms \<Longrightarrow> t \<notin> set moves \<Longrightarrow> validate_moves ms acc = None"
proof (induction ms arbitrary: acc)
  case Nil
  then show ?case by simp
next
  case (Cons m ms)
  show ?case
  proof (cases "m \<in> set moves")
    case True
    with Cons show ?thesis by auto
  next
    case False
    then have "m \<notin> fst ` set move_map" by (simp add: moves_def move_map_def)
    then have "map_of move_map m = None" by (simp add: map_of_eq_None_iff)
    then show ?thesis by simp
  qed
qed

lemma validate_moves_valid:
  "set ms \<subseteq> set moves \<Longrightarrow> validate_moves ms acc = Some (acc @ ms)"
proof (induction ms arbitrary: acc)
  case Nil
  then show ?case by simp
next
  case (Cons m ms)
  then have "m \<in> fst ` set move_map" by (simp add: moves_def move_map_def)
  then have "map_of move_map m \<noteq> None" by (simp add: map_of_eq_None_iff)
  with Cons show ?case by simp
qed


lemma length_get_kociemba_string:
  assumes "wf_cube cube" "get_kociemba_string kociemba_available cube = Some cube_string"
  shows "length cube_string = 54"
proof -
  from assms(2) have "kociemba_available"
    by (auto simp: get_kociemba_string_def split: if_splits)
  with assms(2) have c: "cube_string = map kociemba_letter (get_state_string cube)"
    by (simp add: get_kociemba_string_map)
  from assms(1) have "length (get_state_string cube) = 54"
    by (rule wf_cube_mk) (simp only: get_state_string_mk, simp)
  with c show ?thesis by simp
qed

text \<open>
  C8, for the exceptions that the code catches. When the reply of the external solver
  contains a token that is not one of the twelve canonical moves, \<open>solve_kociemba\<close> returns
  \<open>None\<close>, not the valid tokens before it. When the external call raises an exception that
  is an instance of \<^verbatim>\<open>Exception\<close>, \<open>solve_kociemba\<close> catches it and returns \<open>None\<close>. When
  the external call, on the string of a 3-by-3 cube, raises an exception that is not an
  instance of \<^verbatim>\<open>Exception\<close>, \<open>solve_kociemba\<close> does not catch it: the exception leaves the
  function.
\<close>

theorem external_solver_rejected:
  "(get_kociemba_string kociemba_available cube = Some cube_string \<and>
    kociemba_solve cube_string = Inr solution_string \<and>
    t \<in> set (py_split (py_strip solution_string)) \<and> t \<notin> set moves
      \<longrightarrow> solve_kociemba kociemba_available kociemba_solve cube = Inr None) \<and>
   (get_kociemba_string kociemba_available cube = Some cube_string \<and>
    kociemba_solve cube_string = Inl e \<and> isinstance_Exception e
      \<longrightarrow> solve_kociemba kociemba_available kociemba_solve cube = Inr None) \<and>
   (wf_cube cube \<and> get_kociemba_string kociemba_available cube = Some cube_string \<and>
    kociemba_solve cube_string = Inl e \<and> \<not> isinstance_Exception e
      \<longrightarrow> solve_kociemba kociemba_available kociemba_solve cube = Inl e)"
proof (intro conjI impI)
  assume a: "get_kociemba_string kociemba_available cube = Some cube_string \<and>
    kociemba_solve cube_string = Inr solution_string \<and>
    t \<in> set (py_split (py_strip solution_string)) \<and> t \<notin> set moves"
  then have v: "validate_moves (py_split (py_strip solution_string)) [] = None"
    by (blast intro: validate_moves_invalid)
  from a have n: "solution_string \<noteq> []" by (auto simp: py_split_def py_strip_def)
  from a have av: "kociemba_available"
    by (auto simp: get_kociemba_string_def split: if_splits)
  from a have g: "get_kociemba_string kociemba_available cube = Some cube_string"
    and k: "kociemba_solve cube_string = Inr solution_string" by simp_all
  show "solve_kociemba kociemba_available kociemba_solve cube = Inr None"
    unfolding solve_kociemba_def g by (simp add: av k n v)
next
  assume a: "get_kociemba_string kociemba_available cube = Some cube_string \<and>
    kociemba_solve cube_string = Inl e \<and> isinstance_Exception e"
  then have g: "get_kociemba_string kociemba_available cube = Some cube_string"
    and k: "kociemba_solve cube_string = Inl e" and i: "isinstance_Exception e" by simp_all
  show "solve_kociemba kociemba_available kociemba_solve cube = Inr None"
    unfolding solve_kociemba_def g by (simp add: k i)
next
  assume a: "wf_cube cube \<and> get_kociemba_string kociemba_available cube = Some cube_string \<and>
    kociemba_solve cube_string = Inl e \<and> \<not> isinstance_Exception e"
  then have g: "get_kociemba_string kociemba_available cube = Some cube_string"
    and k: "kociemba_solve cube_string = Inl e" and i: "\<not> isinstance_Exception e"
    and w: "wf_cube cube" by simp_all
  from length_get_kociemba_string [OF w g] have l: "length cube_string = 54" .
  then have ne: "cube_string \<noteq> []" by auto
  from g have av: "kociemba_available"
    by (auto simp: get_kociemba_string_def split: if_splits)
  show "solve_kociemba kociemba_available kociemba_solve cube = Inl e"
    unfolding solve_kociemba_def g by (simp add: av k i l ne)
qed

theorem external_solver_rejected_witness:
  "wf_cube init_cube \<and>
   get_kociemba_string True init_cube
     = Some ''UUUUUUUUURRRRRRRRRFFFFFFFFFDDDDDDDDDLLLLLLLLLBBBBBBBBB'' \<and>
   ''X'' \<in> set (py_split (py_strip ''R U X '')) \<and> ''X'' \<notin> set moves \<and>
   solve_kociemba True (\<lambda>_. Inr ''R U X '') init_cube = Inr None \<and>
   isinstance_Exception (Exception ''no solution'') \<and>
   solve_kociemba True (\<lambda>_. Inl (Exception ''no solution'')) init_cube = Inr None \<and>
   \<not> isinstance_Exception SystemExit \<and>
   solve_kociemba True (\<lambda>_. Inl SystemExit) init_cube = Inl SystemExit"
proof -
  have w: "wf_cube init_cube" by (rule wf_init_cube)
  have g: "get_kociemba_string True init_cube
      = Some ''UUUUUUUUURRRRRRRRRFFFFFFFFFDDDDDDDDDLLLLLLLLLBBBBBBBBB''"
    by (simp add: get_kociemba_string_map init_cube_mk get_state_string_mk kociemba_letter_def)
  have t: "''X'' \<in> set (py_split (py_strip ''R U X ''))"
    by (simp add: py_split_def py_strip_def py_isspace_def)
  have m: "''X'' \<notin> set moves" by (simp add: moves_def)
  have i: "isinstance_Exception (Exception ''no solution'')"
    by (simp add: isinstance_Exception_def)
  have j: "\<not> isinstance_Exception SystemExit"
    by (simp add: isinstance_Exception_def)
  from external_solver_rejected [of True init_cube
      "''UUUUUUUUURRRRRRRRRFFFFFFFFFDDDDDDDDDLLLLLLLLLBBBBBBBBB''"
      "\<lambda>_. Inr ''R U X ''" "''R U X ''" "''X''"] g t m
  have a: "solve_kociemba True (\<lambda>_. Inr ''R U X '') init_cube = Inr None" by blast
  from external_solver_rejected [of True init_cube
      "''UUUUUUUUURRRRRRRRRFFFFFFFFFDDDDDDDDDLLLLLLLLLBBBBBBBBB''"
      "\<lambda>_. Inl (Exception ''no solution'')" _ _ "Exception ''no solution''"] g i
  have b: "solve_kociemba True (\<lambda>_. Inl (Exception ''no solution'')) init_cube = Inr None"
    by blast
  from external_solver_rejected [of True init_cube
      "''UUUUUUUUURRRRRRRRRFFFFFFFFFDDDDDDDDDLLLLLLLLLBBBBBBBBB''"
      "\<lambda>_. Inl SystemExit" _ _ SystemExit] g j w
  have c: "solve_kociemba True (\<lambda>_. Inl SystemExit) init_cube = Inl SystemExit"
    by blast
  from w g t m a i b j c show ?thesis by blast
qed

text \<open>
  C8 does not hold for every exception raised during the external call: when the library
  raises \<^verbatim>\<open>KeyboardInterrupt\<close> on the string of the solved cube, \<open>solve_kociemba\<close> does not
  return \<open>None\<close>, the exception leaves it; and it leaves \<open>solve_cube\<close> too, on the cube after
  the untracked move F, which has no history.
\<close>

theorem keyboard_interrupt_leaves_solve_kociemba:
  "solve_kociemba True (\<lambda>_. Inl KeyboardInterrupt) init_cube = Inl KeyboardInterrupt \<and>
   solve_kociemba True (\<lambda>_. Inl KeyboardInterrupt) init_cube \<noteq> Inr None \<and>
   solve_cube True (\<lambda>_. Inl KeyboardInterrupt) (\<lambda>_ _. False) (apply_move init_cube ''F'' False)
     = Inl KeyboardInterrupt"
proof -
  have g: "get_kociemba_string True init_cube
      = Some ''UUUUUUUUURRRRRRRRRFFFFFFFFFDDDDDDDDDLLLLLLLLLBBBBBBBBB''"
    by (simp add: get_kociemba_string_map init_cube_mk get_state_string_mk kociemba_letter_def)
  have a: "solve_kociemba True (\<lambda>_. Inl KeyboardInterrupt) init_cube = Inl KeyboardInterrupt"
    unfolding solve_kociemba_def g by (simp add: isinstance_Exception_def)
  let ?c = "apply_move init_cube ''F'' False"
  have w: "wf_cube ?c" by (intro wf_apply_move wf_init_cube)
  have "get_kociemba_string True ?c = Some (map kociemba_letter (get_state_string ?c))"
    by (rule get_kociemba_string_map)
  moreover from length_get_kociemba_string [OF w this]
  have "length (map kociemba_letter (get_state_string ?c)) = 54" .
  ultimately have k: "solve_kociemba True (\<lambda>_. Inl KeyboardInterrupt) ?c = Inl KeyboardInterrupt"
    unfolding solve_kociemba_def by (auto simp: isinstance_Exception_def)
  have ns: "\<not> is_solved ?c"
    by (simp add: init_cube_mk apply_move_mk is_solved_mk get_state_string_mk)
  have h: "move_history ?c = []"
    by (simp add: init_cube_mk apply_move_mk)
  have "solve_cube True (\<lambda>_. Inl KeyboardInterrupt) (\<lambda>_ _. False) ?c = Inl KeyboardInterrupt"
    by (simp add: solve_cube_def ns perfect_reverse_def h kociemba_method_def k
        isinstance_Exception_def)
  with a show ?thesis by simp
qed

section \<open>Correctness of the search\<close>

subsection \<open>Replaying paths\<close>

lemma copy_id: "copy s = s"
proof -
  have "faces (copy s) f = faces s f" for f
    by (cases f) (simp_all add: copy_def)
  then have "faces (copy s) = faces s" by (simp add: fun_eq_iff)
  moreover have "move_history (copy s) = move_history s" by (simp add: copy_def)
  ultimately show ?thesis by simp
qed

lemma replay_Nil [simp]: "replay c [] = c"
  by (simp add: replay_def)

lemma replay_snoc: "replay c (p @ [m]) = apply_move (replay c p) m False"
  by (simp add: replay_def)

lemma replay_append: "replay c (p @ q) = replay (replay c p) q"
  by (simp add: replay_def)

lemma wf_replay: "wf_cube c \<Longrightarrow> wf_cube (replay c p)"
  by (induction p rule: rev_induct) (simp_all add: replay_snoc wf_apply_move)

lemma history_grid_ops [simp]:
  "move_history (set_row s f i vs) = move_history s"
  "move_history (set_col s f i vs) = move_history s"
  "move_history (rotate_face_clockwise s f) = move_history s"
  by (simp_all add: set_row_def set_col_def rotate_face_clockwise_def Let_def)

lemma history_rotate_ccw [simp]:
  "move_history (rotate_face_counterclockwise s f) = move_history s"
  by (simp add: rotate_face_counterclockwise_def upt3)

lemma history_call_rotation: "move_history (call_rotation r s cw) = move_history s"
  by (cases r)
     (simp_all add: rotate_front_def rotate_right_def rotate_up_def rotate_left_def
        rotate_down_def rotate_back_def Let_def)

lemma history_apply_move_untracked: "move_history (apply_move s m False) = move_history s"
  by (simp add: apply_move_def history_call_rotation split: option.splits)

lemma history_replay: "move_history (replay c p) = move_history c"
  by (induction p rule: rev_induct) (simp_all add: replay_snoc history_apply_move_untracked)

lemma key_eq_replay_eq:
  assumes "wf_cube c0" "key c0 p = key c0 q"
  shows "replay c0 p = replay c0 q"
proof -
  have "faces (replay c0 p) = faces (replay c0 q)"
    using assms by (intro get_state_string_inj) (simp_all add: wf_replay key_def)
  moreover have "move_history (replay c0 p) = move_history (replay c0 q)"
    by (simp add: history_replay)
  ultimately show ?thesis by simp
qed

lemma key_snoc_cong:
  assumes "wf_cube c0" "key c0 p = key c0 q"
  shows "key c0 (p @ [m]) = key c0 (q @ [m])"
proof -
  from assms have "replay c0 p = replay c0 q" by (rule key_eq_replay_eq)
  then show ?thesis by (simp only: key_def replay_snoc)
qed

lemma solved_key:
  assumes "wf_cube c0"
  shows "is_solved (replay c0 p) = (key c0 p = solved_string)"
proof -
  from assms have "wf_cube (replay c0 p)" by (rule wf_replay)
  then show ?thesis unfolding key_def solved_string_def by (rule is_solved_iff_string)
qed

lemma first_exit:
  assumes "key c0 [] \<in> V" "key c0 q \<notin> V"
  shows "\<exists>q1 m1 q2. q = q1 @ m1 # q2 \<and> key c0 q1 \<in> V \<and> key c0 (q1 @ [m1]) \<notin> V"
  using assms(2)
proof (induction q rule: rev_induct)
  case Nil
  with assms(1) show ?case by simp
next
  case (snoc m q)
  show ?case
  proof (cases "key c0 q \<in> V")
    case True
    with snoc.prems show ?thesis by (intro exI [of _ q] exI [of _ m] exI [of _ "[]"]) simp
  next
    case False
    then obtain q1 m1 q2 where "q = q1 @ m1 # q2" "key c0 q1 \<in> V" "key c0 (q1 @ [m1]) \<notin> V"
      using snoc.IH by blast
    then show ?thesis by (intro exI [of _ q1] exI [of _ m1] exI [of _ "q2 @ [m]"]) simp
  qed
qed

subsection \<open>The invariant of the search\<close>

lemma bfs_inv_nodes:
  "bfs_inv c0 d k P Q V \<Longrightarrow> x \<in> set Q \<Longrightarrow>
   fst x = replay c0 (snd x) \<and> canonical (snd x) \<and> k \<le> length (snd x) \<and>
   length (snd x) \<le> Suc k \<and> shortest c0 (snd x)"
  by (simp add: bfs_inv_def)

lemma bfs_inv_sorted: "bfs_inv c0 d k P Q V \<Longrightarrow> sorted (map (\<lambda>x. length (snd x)) Q)"
  by (simp add: bfs_inv_def)

lemma bfs_inv_start: "bfs_inv c0 d k P Q V \<Longrightarrow> key c0 [] \<in> V"
  by (simp add: bfs_inv_def)

lemma bfs_inv_unsolved: "bfs_inv c0 d k P Q V \<Longrightarrow> solved_string \<notin> V"
  by (simp add: bfs_inv_def)

lemma bfs_inv_closed:
  "bfs_inv c0 d k P Q V \<Longrightarrow> canonical q \<Longrightarrow> m \<in> set moves \<Longrightarrow> key c0 q \<in> V \<Longrightarrow>
   key c0 (q @ [m]) \<in> V \<or> (\<exists>x \<in> set Q. key c0 (snd x) = key c0 q) \<or>
   d \<le> length q \<or> (key c0 q, m) \<in> P"
  by (simp add: bfs_inv_def)

lemma canonical_append [simp]: "canonical (p @ q) = (canonical p \<and> canonical q)"
  by (simp add: canonical_def)

lemma canonical_Cons [simp]: "canonical (m # q) = (m \<in> set moves \<and> canonical q)"
  by (simp add: canonical_def)

lemma canonical_Nil [simp]: "canonical []"
  by (simp add: canonical_def)

text \<open>A canonical path that leaves the visited set is longer than the current level.\<close>

lemma beyond_frontier:
  assumes inv: "bfs_inv c0 d k P Q V"
    and kd: "k \<le> d"
    and pend: "\<And>kq m q. (kq, m) \<in> P \<Longrightarrow> canonical q \<Longrightarrow> key c0 q = kq \<Longrightarrow> k \<le> length q"
    and q: "canonical q" "key c0 q \<notin> V"
  shows "Suc k \<le> length q"
proof -
  from first_exit [OF bfs_inv_start [OF inv] q(2)]
  obtain q1 m1 q2 where split: "q = q1 @ m1 # q2"
    and in1: "key c0 q1 \<in> V" and out1: "key c0 (q1 @ [m1]) \<notin> V" by blast
  from q(1) split have c1: "canonical q1" and m1: "m1 \<in> set moves" by simp_all
  from split have len: "length q1 < length q" by simp
  from bfs_inv_closed [OF inv c1 m1 in1] out1
  consider (pending) x where "x \<in> set Q" "key c0 (snd x) = key c0 q1"
    | (deep) "d \<le> length q1" | (current) "(key c0 q1, m1) \<in> P"
    by blast
  then have "k \<le> length q1"
  proof cases
    case pending
    from bfs_inv_nodes [OF inv pending(1)]
    have "k \<le> length (snd x)" and "shortest c0 (snd x)" by simp_all
    with c1 pending(2) show ?thesis unfolding shortest_def by fastforce
  next
    case deep
    with kd show ?thesis by simp
  next
    case current
    from pend [OF current c1] show ?thesis by simp
  qed
  with len show ?thesis by simp
qed

lemma bfs_invI:
  assumes "\<And>x. x \<in> set Q \<Longrightarrow> fst x = replay c0 (snd x) \<and> canonical (snd x) \<and>
             k \<le> length (snd x) \<and> length (snd x) \<le> Suc k \<and> shortest c0 (snd x)"
    and "sorted (map (\<lambda>x. length (snd x)) Q)"
    and "key c0 [] \<in> V" and "solved_string \<notin> V"
    and "\<And>q m. canonical q \<Longrightarrow> m \<in> set moves \<Longrightarrow> key c0 q \<in> V \<Longrightarrow>
          key c0 (q @ [m]) \<in> V \<or> (\<exists>x \<in> set Q. key c0 (snd x) = key c0 q) \<or>
          d \<le> length q \<or> (key c0 q, m) \<in> P"
  shows "bfs_inv c0 d k P Q V"
  unfolding bfs_inv_def using assms by blast

text \<open>The state of the next move is already visited: the move is done.\<close>

lemma bfs_inv_skip:
  assumes wf: "wf_cube c0"
    and inv: "bfs_inv c0 d k ({key c0 p} \<times> set (m # rest)) Q V"
    and seen: "key c0 (p @ [m]) \<in> V"
  shows "bfs_inv c0 d k ({key c0 p} \<times> set rest) Q V"
proof (rule bfs_invI)
  fix q m'
  assume q: "canonical q" "m' \<in> set moves" "key c0 q \<in> V"
  from bfs_inv_closed [OF inv q]
  consider "key c0 (q @ [m']) \<in> V" | "\<exists>x \<in> set Q. key c0 (snd x) = key c0 q"
    | "d \<le> length q" | "key c0 q = key c0 p" "m' = m" | "(key c0 q, m') \<in> {key c0 p} \<times> set rest"
    by auto
  then show "key c0 (q @ [m']) \<in> V \<or> (\<exists>x \<in> set Q. key c0 (snd x) = key c0 q) \<or>
          d \<le> length q \<or> (key c0 q, m') \<in> {key c0 p} \<times> set rest"
  proof cases
    case 4
    from key_snoc_cong [OF wf 4(1)] 4(2) seen show ?thesis by simp
  qed blast+
qed (use inv in \<open>simp_all add: bfs_inv_nodes bfs_inv_sorted bfs_inv_start bfs_inv_unsolved\<close>)

text \<open>The state of the next move is new: it joins the queue and the visited set.\<close>

lemma bfs_inv_add:
  assumes wf: "wf_cube c0"
    and inv: "bfs_inv c0 d k ({key c0 p} \<times> set (m # rest)) Q V"
    and new: "key c0 (p @ [m]) \<notin> V"
    and unsolved: "key c0 (p @ [m]) \<noteq> solved_string"
    and p: "canonical p" "length p = k" "k < d" "shortest c0 p"
    and m: "m \<in> set moves"
  shows "bfs_inv c0 d k ({key c0 p} \<times> set rest)
           (Q @ [(replay c0 (p @ [m]), p @ [m])]) (insert (key c0 (p @ [m])) V)"
proof (rule bfs_invI)
  have pend: "k \<le> length q" if "(kq, m') \<in> {key c0 p} \<times> set (m # rest)" "canonical q"
    "key c0 q = kq" for kq m' q
    using that p(2,4) unfolding shortest_def by auto
  have short: "shortest c0 (p @ [m])"
    unfolding shortest_def
  proof (intro allI impI)
    fix q assume q: "canonical q" "key c0 q = key c0 (p @ [m])"
    with new have "key c0 q \<notin> V" by simp
    from beyond_frontier [OF inv _ pend q(1) this] p(2,3)
    show "length (p @ [m]) \<le> length q" by simp
  qed
  show "fst x = replay c0 (snd x) \<and> canonical (snd x) \<and> k \<le> length (snd x) \<and>
        length (snd x) \<le> Suc k \<and> shortest c0 (snd x)"
    if "x \<in> set (Q @ [(replay c0 (p @ [m]), p @ [m])])" for x
  proof (cases "x \<in> set Q")
    case True
    with inv show ?thesis by (simp add: bfs_inv_nodes)
  next
    case False
    with that have "x = (replay c0 (p @ [m]), p @ [m])" by simp
    with p m short show ?thesis by simp
  qed
  show "sorted (map (\<lambda>x. length (snd x)) (Q @ [(replay c0 (p @ [m]), p @ [m])]))"
    using bfs_inv_sorted [OF inv] bfs_inv_nodes [OF inv] p(2)
    by (auto simp: sorted_append)
  show "key c0 [] \<in> insert (key c0 (p @ [m])) V"
    using bfs_inv_start [OF inv] by simp
  show "solved_string \<notin> insert (key c0 (p @ [m])) V"
    using bfs_inv_unsolved [OF inv] unsolved by simp
  fix q m'
  assume q: "canonical q" "m' \<in> set moves" "key c0 q \<in> insert (key c0 (p @ [m])) V"
  let ?Q = "Q @ [(replay c0 (p @ [m]), p @ [m])]" and ?V = "insert (key c0 (p @ [m])) V"
  show "key c0 (q @ [m']) \<in> ?V \<or> (\<exists>x \<in> set ?Q. key c0 (snd x) = key c0 q) \<or>
          d \<le> length q \<or> (key c0 q, m') \<in> {key c0 p} \<times> set rest"
  proof (cases "key c0 q \<in> V")
    case False
    with q(3) have "key c0 q = key c0 (p @ [m])" by simp
    then show ?thesis by simp
  next
    case True
    from bfs_inv_closed [OF inv q(1,2) True]
    consider "key c0 (q @ [m']) \<in> V" | "\<exists>x \<in> set Q. key c0 (snd x) = key c0 q"
      | "d \<le> length q" | "key c0 q = key c0 p" "m' = m"
      | "(key c0 q, m') \<in> {key c0 p} \<times> set rest"
      by auto
    then show ?thesis
    proof cases
      case 4
      from key_snoc_cong [OF wf 4(1)] 4(2) show ?thesis by simp
    qed auto
  qed
qed

text \<open>A node at the depth limit is dropped.\<close>

lemma bfs_inv_discard:
  assumes inv: "bfs_inv c0 d k {} (x # Q) V" and deep: "d \<le> length (snd x)"
  shows "bfs_inv c0 d k {} Q V"
proof (rule bfs_invI)
  fix q m
  assume q: "canonical q" "m \<in> set moves" "key c0 q \<in> V"
  from bfs_inv_closed [OF inv q]
  consider "key c0 (q @ [m]) \<in> V" | "\<exists>y \<in> set Q. key c0 (snd y) = key c0 q"
    | "d \<le> length q" | "key c0 (snd x) = key c0 q"
    by auto
  then show "key c0 (q @ [m]) \<in> V \<or> (\<exists>x \<in> set Q. key c0 (snd x) = key c0 q) \<or>
          d \<le> length q \<or> (key c0 q, m) \<in> {}"
  proof cases
    case 4
    from bfs_inv_nodes [OF inv, of x] have "shortest c0 (snd x)" by simp
    with q(1) 4 have "length (snd x) \<le> length q" unfolding shortest_def by simp
    with deep show ?thesis by simp
  qed blast+
next
  show "sorted (map (\<lambda>x. length (snd x)) Q)" using bfs_inv_sorted [OF inv] by simp
qed (use inv in \<open>simp_all add: bfs_inv_nodes bfs_inv_start bfs_inv_unsolved\<close>)

text \<open>A node below the depth limit is taken from the queue, all its moves pending.\<close>

lemma bfs_inv_pop:
  assumes inv: "bfs_inv c0 d k {} ((c, p) # Q) V"
  shows "bfs_inv c0 d (length p) ({key c0 p} \<times> set moves) Q V"
proof (rule bfs_invI)
  from bfs_inv_nodes [OF inv, of "(c, p)"]
  have head: "k \<le> length p" "length p \<le> Suc k" by simp_all
  from bfs_inv_sorted [OF inv] have le: "\<And>y. y \<in> set Q \<Longrightarrow> length p \<le> length (snd y)"
    by auto
  show "fst x = replay c0 (snd x) \<and> canonical (snd x) \<and> length p \<le> length (snd x) \<and>
        length (snd x) \<le> Suc (length p) \<and> shortest c0 (snd x)" if "x \<in> set Q" for x
    using bfs_inv_nodes [OF inv, of x] le [OF that] that head by simp
  show "sorted (map (\<lambda>x. length (snd x)) Q)" using bfs_inv_sorted [OF inv] by simp
  fix q m
  assume q: "canonical q" "m \<in> set moves" "key c0 q \<in> V"
  from bfs_inv_closed [OF inv q]
  show "key c0 (q @ [m]) \<in> V \<or> (\<exists>x \<in> set Q. key c0 (snd x) = key c0 q) \<or>
          d \<le> length q \<or> (key c0 q, m) \<in> {key c0 p} \<times> set moves"
    using q(2) by auto
qed (use inv in \<open>simp_all add: bfs_inv_start bfs_inv_unsolved\<close>)

lemma try_moves_inv:
  assumes wf: "wf_cube c0"
    and p: "canonical p" "length p = k" "k < d" "shortest c0 p"
    and rest: "set rest \<subseteq> set moves"
    and inv: "bfs_inv c0 d k ({key c0 p} \<times> set rest) Q V"
  shows "case try_moves (replay c0 p) p rest Q V of
           Inl sol \<Rightarrow> good_solution c0 d sol
         | Inr (Q', V') \<Rightarrow> bfs_inv c0 d k {} Q' V'"
  using rest inv
proof (induction rest arbitrary: Q V)
  case Nil
  then show ?case by simp
next
  case (Cons m rest)
  from Cons.prems(1) have m: "m \<in> set moves" and rest: "set rest \<subseteq> set moves" by simp_all
  note inv = Cons.prems(2)
  have new_cube: "apply_move (copy (replay c0 p)) m False = replay c0 (p @ [m])"
    by (simp add: copy_id replay_snoc)
  have pend: "k \<le> length q" if "(kq, m') \<in> {key c0 p} \<times> set (m # rest)" "canonical q"
    "key c0 q = kq" for kq m' q
    using that p(2,4) unfolding shortest_def by auto
  show ?case
  proof (cases "is_solved (replay c0 (p @ [m]))")
    case True
    have "length (p @ [m]) \<le> length q" if q: "canonical q" "is_solved (replay c0 q)" for q
    proof -
      from q(2) have "key c0 q = solved_string" by (simp add: solved_key [OF wf])
      with bfs_inv_unsolved [OF inv] have "key c0 q \<notin> V" by simp
      from beyond_frontier [OF inv _ pend q(1) this] p(2,3) show ?thesis by simp
    qed
    with True p m have "good_solution c0 d (p @ [m])"
      by (simp add: good_solution_def)
    with True show ?thesis by (simp add: new_cube)
  next
    case False
    then have unsolved: "key c0 (p @ [m]) \<noteq> solved_string" by (simp add: solved_key [OF wf])
    show ?thesis
    proof (cases "key c0 (p @ [m]) \<in> V")
      case True
      from Cons.IH [OF rest bfs_inv_skip [OF wf inv True]] True False
      show ?thesis by (simp add: new_cube key_def Let_def)
    next
      case new: False
      from Cons.IH [OF rest bfs_inv_add [OF wf inv new unsolved p m]] new False
      show ?thesis by (simp add: new_cube key_def Let_def)
    qed
  qed
qed

lemma bfs_loop_sound:
  assumes wf: "wf_cube c0"
  shows "bfs_inv c0 d k {} Q V \<Longrightarrow> bfs_loop timed_out d Q V n = Some sol \<Longrightarrow>
         good_solution c0 d sol"
proof (induction timed_out d Q V n arbitrary: k rule: bfs_loop.induct)
  case (1 timed_out max_depth visited nodes_explored)
  then show ?case by simp
next
  case (2 timed_out max_depth current_cube moves_so_far queue visited nodes_explored)
  note inv = "2.prems"(1) and res = "2.prems"(2)
  from res have go: "\<not> timed_out nodes_explored" "\<not> max_nodes < nodes_explored"
    by (auto split: if_splits)
  show ?case
  proof (cases "max_depth \<le> length moves_so_far")
    case True
    from bfs_inv_discard [OF inv] True
    have "bfs_inv c0 max_depth k {} queue visited" by simp
    from "2.IH"(1) [OF go True this] res go True show ?thesis by simp
  next
    case False
    from bfs_inv_nodes [OF inv, of "(current_cube, moves_so_far)"]
    have node: "current_cube = replay c0 moves_so_far" "canonical moves_so_far"
      "shortest c0 moves_so_far" by simp_all
    from False have lt: "length moves_so_far < max_depth" by simp
    from try_moves_inv [OF wf node(2) refl lt node(3) subset_refl bfs_inv_pop [OF inv]]
    have t: "case try_moves current_cube moves_so_far moves queue visited of
           Inl sol \<Rightarrow> good_solution c0 max_depth sol
         | Inr (Q', V') \<Rightarrow> bfs_inv c0 max_depth (length moves_so_far) {} Q' V'"
      by (simp add: node(1))
    show ?thesis
    proof (cases "try_moves current_cube moves_so_far moves queue visited")
      case (Inl s)
      with t res go False show ?thesis by simp
    next
      case (Inr qv)
      obtain Q' V' where qv: "qv = (Q', V')" by (cases qv)
      from t Inr qv have "bfs_inv c0 max_depth (length moves_so_far) {} Q' V'" by simp
      from "2.IH"(2) [OF go False Inr qv [symmetric] this] res go False Inr qv
      show ?thesis by simp
    qed
  qed
qed

lemma bfs_inv_initial:
  assumes wf: "wf_cube c0" and unsolved: "\<not> is_solved c0"
  shows "bfs_inv c0 d 0 {} [(copy c0, [])] {get_state_string c0}"
proof (rule bfs_invI)
  have k0: "key c0 [] = get_state_string c0" by (simp add: key_def)
  show "key c0 [] \<in> {get_state_string c0}" by (simp add: k0)
  from unsolved solved_key [OF wf, of "[]"] show "solved_string \<notin> {get_state_string c0}"
    by (simp add: k0)
  show "fst x = replay c0 (snd x) \<and> canonical (snd x) \<and> 0 \<le> length (snd x) \<and>
        length (snd x) \<le> Suc 0 \<and> shortest c0 (snd x)" if "x \<in> set [(copy c0, [])]" for x
    using that by (simp add: copy_id shortest_def)
  fix q m assume "key c0 q \<in> {get_state_string c0}"
  then show "key c0 (q @ [m]) \<in> {get_state_string c0} \<or>
       (\<exists>x \<in> set [(copy c0, [])]. key c0 (snd x) = key c0 q) \<or> d \<le> length q \<or>
       (key c0 q, m) \<in> {}"
    by (simp add: k0)
qed simp

lemma solve_bfs_sound:
  assumes "wf_cube c0" "solve_bfs timed_out c0 d = Some sol"
  shows "good_solution c0 d sol"
proof (cases "is_solved c0")
  case True
  with assms(2) have "sol = []" by (simp add: solve_bfs_def)
  with True show ?thesis by (simp add: good_solution_def)
next
  case False
  with assms(2) have "bfs_loop timed_out d [(copy c0, [])] {get_state_string c0} 0 = Some sol"
    by (simp add: solve_bfs_def)
  from bfs_loop_sound [OF assms(1) bfs_inv_initial [OF assms(1) False] this]
  show ?thesis .
qed

subsection \<open>The search finds near solutions within its node budget\<close>

lemma node_weight_children: "l < L \<Longrightarrow> 12 * node_weight L (Suc l) + 1 \<le> node_weight L l"
proof (cases "Suc l < L")
  case True
  then have "L - 1 - l = Suc (L - 1 - Suc l)" by simp
  then have "nodes_below (L - 1 - l) = 1 + 12 * nodes_below (L - 1 - Suc l)"
    by (metis nodes_below.simps(2))
  with True show ?thesis by (simp add: node_weight_def)
next
  case False
  assume "l < L"
  with False have "L - 1 - l = 0" by simp
  with False \<open>l < L\<close> show ?thesis by (simp add: node_weight_def)
qed

lemma queue_weight_simps [simp]:
  "queue_weight L [] = 0"
  "queue_weight L (x # Q) = node_weight L (length (snd x)) + queue_weight L Q"
  "queue_weight L (Q @ Q') = queue_weight L Q + queue_weight L Q'"
  by (simp_all add: queue_weight_def)

lemma try_moves_weight:
  "try_moves cur p rest Q V = Inr (Q', V') \<Longrightarrow>
   queue_weight L Q' \<le> queue_weight L Q + length rest * node_weight L (Suc (length p))"
proof (induction rest arbitrary: Q V)
  case Nil
  then show ?case by simp
next
  case (Cons m rest)
  let ?new = "apply_move (copy cur) m False"
  from Cons.prems have ns: "\<not> is_solved ?new" by (auto simp: Let_def split: if_splits)
  show ?case
  proof (cases "get_state_string ?new \<in> V")
    case True
    with Cons.prems ns have "try_moves cur p rest Q V = Inr (Q', V')" by (simp add: Let_def)
    from Cons.IH [OF this] show ?thesis by simp
  next
    case False
    with Cons.prems ns
    have "try_moves cur p rest (Q @ [(?new, p @ [m])]) (insert (get_state_string ?new) V)
          = Inr (Q', V')" by (simp add: Let_def)
    from Cons.IH [OF this] show ?thesis by simp
  qed
qed

lemma length_moves: "length moves = 12"
  by (simp add: moves_def)

text \<open>While a solution within the depth limit exists, a node of a shorter path is queued.\<close>

lemma pending_exists:
  assumes inv: "bfs_inv c0 d k {} Q V"
    and q0: "canonical q0" "key c0 q0 \<notin> V" "length q0 \<le> d"
  shows "\<exists>x \<in> set Q. length (snd x) < length q0"
proof -
  from first_exit [OF bfs_inv_start [OF inv] q0(2)]
  obtain q1 m1 q2 where split: "q0 = q1 @ m1 # q2"
    and in1: "key c0 q1 \<in> V" and out1: "key c0 (q1 @ [m1]) \<notin> V" by blast
  from q0(1) split have c1: "canonical q1" and m1: "m1 \<in> set moves" by simp_all
  from split have len: "length q1 < length q0" by simp
  with q0(3) have "\<not> d \<le> length q1" by simp
  with bfs_inv_closed [OF inv c1 m1 in1] out1
  obtain x where x: "x \<in> set Q" "key c0 (snd x) = key c0 q1" by blast
  from bfs_inv_nodes [OF inv x(1)] have "shortest c0 (snd x)" by simp
  with c1 x(2) have "length (snd x) \<le> length q1" unfolding shortest_def by simp
  with len x(1) show ?thesis by force
qed

lemma bfs_loop_complete:
  assumes wf: "wf_cube c0"
    and q0: "canonical q0" "is_solved (replay c0 q0)" "length q0 \<le> L"
  shows "\<forall>n. \<not> timed_out n \<Longrightarrow> L \<le> d \<Longrightarrow> bfs_inv c0 d k {} Q V \<Longrightarrow>
         n + queue_weight L Q \<le> Suc max_nodes \<Longrightarrow>
         \<exists>sol. bfs_loop timed_out d Q V n = Some sol"
proof (induction timed_out d Q V n arbitrary: k rule: bfs_loop.induct)
  case (1 timed_out max_depth visited nodes_explored)
  from q0(2) have "key c0 q0 = solved_string" by (simp add: solved_key [OF wf])
  with bfs_inv_unsolved [OF "1.prems"(3)] have "key c0 q0 \<notin> visited" by simp
  from pending_exists [OF "1.prems"(3) q0(1) this] q0(3) "1.prems"(2) show ?case by simp
next
  case (2 timed_out max_depth current_cube moves_so_far queue visited nodes_explored)
  note clock = "2.prems"(1) and Ld = "2.prems"(2) and inv = "2.prems"(3)
    and budget = "2.prems"(4)
  from q0(2) have "key c0 q0 = solved_string" by (simp add: solved_key [OF wf])
  with bfs_inv_unsolved [OF inv] have "key c0 q0 \<notin> visited" by simp
  moreover from q0(3) Ld have "length q0 \<le> max_depth" by simp
  ultimately have "\<exists>x \<in> set ((current_cube, moves_so_far) # queue).
      length (snd x) < length q0"
    by (rule pending_exists [OF inv q0(1)])
  then obtain x where x0: "x \<in> set ((current_cube, moves_so_far) # queue)"
    "length (snd x) < length q0" by blast
  from x0(2) q0(3) have "length (snd x) < L" by simp
  note x = x0(1) this
  from bfs_inv_sorted [OF inv] x(1) have "length moves_so_far \<le> length (snd x)" by auto
  with x(2) have lt: "length moves_so_far < L" by simp
  with Ld have ltd: "length moves_so_far < max_depth" by simp
  from lt have pos: "1 \<le> node_weight L (length moves_so_far)"
    using node_weight_children [OF lt] by simp
  with budget have go: "\<not> max_nodes < nodes_explored" by simp
  from clock have c: "\<not> timed_out nodes_explored" by simp
  from bfs_inv_nodes [OF inv, of "(current_cube, moves_so_far)"]
  have node: "current_cube = replay c0 moves_so_far" "canonical moves_so_far"
    "shortest c0 moves_so_far" by simp_all
  from try_moves_inv [OF wf node(2) refl ltd node(3) subset_refl bfs_inv_pop [OF inv]]
  have t: "case try_moves current_cube moves_so_far moves queue visited of
         Inl sol \<Rightarrow> good_solution c0 max_depth sol
       | Inr (Q', V') \<Rightarrow> bfs_inv c0 max_depth (length moves_so_far) {} Q' V'"
    by (simp add: node(1))
  show ?case
  proof (cases "try_moves current_cube moves_so_far moves queue visited")
    case (Inl s)
    with go ltd c show ?thesis by simp
  next
    case (Inr qv)
    obtain Q' V' where qv: "qv = (Q', V')" by (cases qv)
    from t Inr qv have inv': "bfs_inv c0 max_depth (length moves_so_far) {} Q' V'" by simp
    from try_moves_weight [of current_cube moves_so_far moves queue visited Q' V' L] Inr qv
    have "queue_weight L Q' \<le> queue_weight L queue
            + 12 * node_weight L (Suc (length moves_so_far))"
      by (simp add: length_moves)
    with node_weight_children [OF lt] budget
    have budget': "nodes_explored + 1 + queue_weight L Q' \<le> Suc max_nodes" by simp
    have nd: "\<not> max_depth \<le> length moves_so_far" using ltd by simp
    from "2.IH"(2) [OF c go nd Inr qv [symmetric] clock Ld inv' budget']
    show ?thesis using go ltd c Inr qv by simp
  qed
qed

text \<open>
  Without a timeout, the search solves every cube that some canonical path of at most five
  moves within the depth limit solves: the node budget allows the 22621 paths of at
  most four moves.
\<close>

lemma solve_bfs_complete:
  assumes wf: "wf_cube c0"
    and clock: "\<forall>n. \<not> timed_out n"
    and q0: "canonical q0" "is_solved (replay c0 q0)" "length q0 \<le> d" "length q0 \<le> 5"
  shows "\<exists>sol. solve_bfs timed_out c0 d = Some sol"
proof (cases "is_solved c0")
  case True
  then show ?thesis by (simp add: solve_bfs_def)
next
  case False
  have n4: "nodes_below (Suc (Suc (Suc (Suc 0)))) = 22621" by simp
  have mono: "nodes_below i \<le> nodes_below j" if "i \<le> j" for i j
    using that by (induction j) (auto simp: le_Suc_eq)
  from q0(4) have "length q0 - 1 \<le> Suc (Suc (Suc (Suc 0)))" by simp
  from mono [OF this] have "node_weight (length q0) 0 \<le> 22621"
    unfolding n4 by (simp add: node_weight_def)
  then have "0 + queue_weight (length q0) [(copy c0, [])] \<le> Suc max_nodes"
    by (simp add: max_nodes_def)
  from bfs_loop_complete [OF wf q0(1,2) le_refl clock q0(3) bfs_inv_initial [OF wf False] this]
  show ?thesis using False by (simp add: solve_bfs_def)
qed

subsection \<open>One and two moves from the solved cube\<close>

lemma get_reverse_move_in_moves: "m \<in> set moves \<Longrightarrow> get_reverse_move m \<in> set moves"
  by (erule moves_cases) (simp_all only: get_reverse_move_moves, simp_all add: moves_def)

lemma faces_undo_move:
  assumes "wf_cube s" and "m \<in> set moves"
  shows "faces (apply_move (apply_move s m t1) (get_reverse_move m) t2) = faces s"
proof -
  from assms(1) obtain f1 f2 f3 f4 f5 f6 f7 f8 f9 b1 b2 b3 b4 b5 b6 b7 b8 b9
    l1 l2 l3 l4 l5 l6 l7 l8 l9 r1 r2 r3 r4 r5 r6 r7 r8 r9
    u1 u2 u3 u4 u5 u6 u7 u8 u9 d1 d2 d3 d4 d5 d6 d7 d8 d9 h
    where s: "s = mk [[f1, f2, f3], [f4, f5, f6], [f7, f8, f9]] [[b1, b2, b3], [b4, b5, b6], [b7, b8, b9]]
        [[l1, l2, l3], [l4, l5, l6], [l7, l8, l9]] [[r1, r2, r3], [r4, r5, r6], [r7, r8, r9]]
        [[u1, u2, u3], [u4, u5, u6], [u7, u8, u9]] [[d1, d2, d3], [d4, d5, d6], [d7, d8, d9]] h" by (rule wf_cube_mk)
  show ?thesis unfolding s by (rule inv_mk [OF assms(2)])
qed

lemma faces_apply_move_mk_history:
  "faces (apply_move (mk [[f1, f2, f3], [f4, f5, f6], [f7, f8, f9]] [[b1, b2, b3], [b4, b5, b6], [b7, b8, b9]]
        [[l1, l2, l3], [l4, l5, l6], [l7, l8, l9]] [[r1, r2, r3], [r4, r5, r6], [r7, r8, r9]]
        [[u1, u2, u3], [u4, u5, u6], [u7, u8, u9]] [[d1, d2, d3], [d4, d5, d6], [d7, d8, d9]] h) m t)
   = faces (apply_move (mk [[f1, f2, f3], [f4, f5, f6], [f7, f8, f9]] [[b1, b2, b3], [b4, b5, b6], [b7, b8, b9]]
        [[l1, l2, l3], [l4, l5, l6], [l7, l8, l9]] [[r1, r2, r3], [r4, r5, r6], [r7, r8, r9]]
        [[u1, u2, u3], [u4, u5, u6], [u7, u8, u9]] [[d1, d2, d3], [d4, d5, d6], [d7, d8, d9]] h') m t')"
proof (cases "m \<in> set moves")
  case True
  then show ?thesis
    by (cases rule: moves_cases) (simp_all only: apply_move_mk, simp_all add: mk_def)
next
  case False
  then show ?thesis by (simp add: apply_move_invalid mk_def)
qed

lemma faces_apply_move_cong:
  assumes "wf_cube a" "faces a = faces b"
  shows "faces (apply_move a m t) = faces (apply_move b m t')"
proof -
  from assms(1) obtain f1 f2 f3 f4 f5 f6 f7 f8 f9 b1 b2 b3 b4 b5 b6 b7 b8 b9
    l1 l2 l3 l4 l5 l6 l7 l8 l9 r1 r2 r3 r4 r5 r6 r7 r8 r9
    u1 u2 u3 u4 u5 u6 u7 u8 u9 d1 d2 d3 d4 d5 d6 d7 d8 d9 h
    where a: "a = mk [[f1, f2, f3], [f4, f5, f6], [f7, f8, f9]] [[b1, b2, b3], [b4, b5, b6], [b7, b8, b9]]
        [[l1, l2, l3], [l4, l5, l6], [l7, l8, l9]] [[r1, r2, r3], [r4, r5, r6], [r7, r8, r9]]
        [[u1, u2, u3], [u4, u5, u6], [u7, u8, u9]] [[d1, d2, d3], [d4, d5, d6], [d7, d8, d9]] h" by (rule wf_cube_mk)
  from assms(2) have "a\<lparr>move_history := move_history b\<rparr> = b" by simp
  then have b: "mk [[f1, f2, f3], [f4, f5, f6], [f7, f8, f9]] [[b1, b2, b3], [b4, b5, b6], [b7, b8, b9]]
        [[l1, l2, l3], [l4, l5, l6], [l7, l8, l9]] [[r1, r2, r3], [r4, r5, r6], [r7, r8, r9]]
        [[u1, u2, u3], [u4, u5, u6], [u7, u8, u9]] [[d1, d2, d3], [d4, d5, d6], [d7, d8, d9]] (move_history b) = b"
    unfolding a by (simp only: upd_mk)
  show ?thesis by (subst a, subst b [symmetric]) (rule faces_apply_move_mk_history)
qed

lemma is_solved_faces_cong: "faces a = faces b \<Longrightarrow> is_solved a = is_solved b"
  by (simp add: is_solved_def)

lemma is_solved_init_cube: "is_solved init_cube"
  by (simp only: init_cube_mk is_solved_mk get_state_string_mk)

lemma one_move_solution:
  assumes m: "m \<in> set moves"
  shows "is_solved (replay (apply_move init_cube m t) [get_reverse_move m])"
proof -
  have "faces (replay (apply_move init_cube m t) [get_reverse_move m]) = faces init_cube"
    by (simp add: replay_def faces_undo_move [OF wf_init_cube m])
  from is_solved_faces_cong [OF this] is_solved_init_cube show ?thesis by simp
qed

lemma two_move_solution:
  assumes m1: "m1 \<in> set moves" and m2: "m2 \<in> set moves"
  shows "is_solved (replay (apply_move (apply_move init_cube m1 t1) m2 t2)
           [get_reverse_move m2, get_reverse_move m1])"
proof -
  let ?c1 = "apply_move init_cube m1 t1"
  let ?c2 = "apply_move ?c1 m2 t2"
  have w1: "wf_cube ?c1" by (rule wf_apply_move [OF wf_init_cube])
  have u2: "faces (apply_move ?c2 (get_reverse_move m2) False) = faces ?c1"
    by (rule faces_undo_move [OF w1 m2])
  have w3: "wf_cube (apply_move ?c2 (get_reverse_move m2) False)"
    by (intro wf_apply_move wf_init_cube)
  have "faces (apply_move (apply_move ?c2 (get_reverse_move m2) False) (get_reverse_move m1) False)
        = faces (apply_move ?c1 (get_reverse_move m1) False)"
    by (rule faces_apply_move_cong [OF w3 u2])
  also have "\<dots> = faces init_cube" by (rule faces_undo_move [OF wf_init_cube m1])
  finally have "faces (replay ?c2 [get_reverse_move m2, get_reverse_move m1]) = faces init_cube"
    by (simp add: replay_def)
  from is_solved_faces_cong [OF this] is_solved_init_cube show ?thesis by simp
qed

lemma one_move_unsolved: "m \<in> set moves \<Longrightarrow> \<not> is_solved (apply_move init_cube m t)"
  apply (erule moves_cases)
  apply (simp_all only: init_cube_mk apply_move_mk is_solved_mk get_state_string_mk)
  apply simp_all
  done

lemma two_moves_unsolved:
  "m1 \<in> set moves \<Longrightarrow> m2 \<in> set moves \<Longrightarrow> m2 \<noteq> get_reverse_move m1 \<Longrightarrow>
   \<not> is_solved (apply_move (apply_move init_cube m1 t1) m2 t2)"
  apply (erule moves_cases; erule moves_cases)
  apply (simp_all only: get_reverse_move_moves init_cube_mk apply_move_mk is_solved_mk get_state_string_mk)
  apply simp_all
  done

lemma bfs_depths_sound:
  assumes "wf_cube c"
  shows "bfs_depths timed_out c ds = p \<Longrightarrow> p \<noteq> [] \<Longrightarrow> is_solved (replay c p)"
proof (induction ds)
  case Nil
  then show ?case by simp
next
  case (Cons d ds)
  show ?case
  proof (cases "solve_bfs (timed_out d) c d")
    case None
    with Cons show ?thesis by simp
  next
    case (Some s)
    show ?thesis
    proof (cases "s = []")
      case True
      with Some Cons show ?thesis by simp
    next
      case False
      with Some Cons.prems have "p = s" by simp
      with solve_bfs_sound [OF assms Some] show ?thesis by (simp add: good_solution_def)
    qed
  qed
qed

lemma perfect_reverse_sound:
  "perfect_reverse c = Some p \<Longrightarrow> is_solved (replay (copy c) p)"
  by (auto simp: perfect_reverse_def Let_def split: if_splits)

lemma kociemba_method_sound:
  "kociemba_method a ks c = Inr (Some p) \<Longrightarrow> is_solved (replay (copy c) p)"
  by (auto simp: kociemba_method_def Let_def split: if_splits option.splits sum.splits)

lemma solve_cube_sound:
  assumes "wf_cube c" "solve_cube a ks timed_out c = Inr p" "p \<noteq> []"
  shows "is_solved (replay (copy c) p)"
proof (cases "perfect_reverse c")
  case (Some s)
  with assms have "p = s" by (simp add: solve_cube_def split: if_splits)
  with Some show ?thesis by (simp add: perfect_reverse_sound)
next
  case None
  show ?thesis
  proof (cases "kociemba_method a ks c")
    case (Inl e)
    with None assms show ?thesis by (simp add: solve_cube_def split: if_splits)
  next
    case (Inr r)
    show ?thesis
    proof (cases r)
      case (Some s)
      with Inr None assms have "p = s" by (simp add: solve_cube_def split: if_splits)
      with Inr Some show ?thesis by (simp add: kociemba_method_sound)
    next
      case n2: None
      with Inr None assms have "bfs_depths timed_out c [1..<max_search_depth c + 1] = p"
        by (simp add: solve_cube_def split: if_splits)
      from bfs_depths_sound [OF assms(1) this assms(3)] show ?thesis by (simp add: copy_id)
    qed
  qed
qed

lemma three_moves_unsolved:
  "m1 \<in> set moves \<Longrightarrow> m2 \<in> set moves \<Longrightarrow> m3 \<in> set moves \<Longrightarrow> m2 \<noteq> get_reverse_move m1 \<Longrightarrow>
   \<not> is_solved (apply_move (apply_move (apply_move init_cube m1 t1) m2 t2) m3 t3)"
  apply (erule moves_cases; erule moves_cases; erule moves_cases)
  apply (simp_all only: get_reverse_move_moves init_cube_mk apply_move_mk is_solved_mk get_state_string_mk)
  apply simp_all
  done

lemma solve_bfs_one_move:
  assumes clock: "\<forall>n. \<not> timed_out n" and m: "m \<in> set moves" and d: "1 \<le> d"
  shows "\<exists>p. solve_bfs timed_out (apply_move init_cube m t) d = Some p \<and> length p = 1"
proof -
  let ?c = "apply_move init_cube m t"
  have wf: "wf_cube ?c" by (rule wf_apply_move [OF wf_init_cube])
  have q0: "canonical [get_reverse_move m]" using get_reverse_move_in_moves [OF m] by simp
  from solve_bfs_complete [where d = d, OF wf clock q0 one_move_solution [OF m]] d
  obtain p where p: "solve_bfs timed_out ?c d = Some p" by auto
  from solve_bfs_sound [OF wf p] have good: "good_solution ?c d p" .
  with q0 one_move_solution [OF m, of t] have "length p \<le> 1"
    unfolding good_solution_def by fastforce
  moreover have "p \<noteq> []"
  proof
    assume "p = []"
    with good have "is_solved ?c" by (simp add: good_solution_def)
    with one_move_unsolved [OF m] show False by simp
  qed
  ultimately have "length p = 1" by (cases p) simp_all
  with p show ?thesis by blast
qed

lemma solve_bfs_two_moves:
  assumes clock: "\<forall>n. \<not> timed_out n" and m1: "m1 \<in> set moves" and m2: "m2 \<in> set moves"
    and indep: "m2 \<noteq> get_reverse_move m1" and d: "2 \<le> d"
  shows "\<exists>p. solve_bfs timed_out (apply_move (apply_move init_cube m1 t1) m2 t2) d = Some p \<and>
             length p = 2"
proof -
  let ?c = "apply_move (apply_move init_cube m1 t1) m2 t2"
  have wf: "wf_cube ?c" by (intro wf_apply_move wf_init_cube)
  have q0: "canonical [get_reverse_move m2, get_reverse_move m1]"
    using get_reverse_move_in_moves [OF m1] get_reverse_move_in_moves [OF m2] by simp
  from solve_bfs_complete [where d = d, OF wf clock q0 two_move_solution [OF m1 m2]] d
  obtain p where p: "solve_bfs timed_out ?c d = Some p" by auto
  from solve_bfs_sound [OF wf p] have good: "good_solution ?c d p" .
  with q0 two_move_solution [OF m1 m2, of t1 t2] have "length p \<le> 2"
    unfolding good_solution_def by fastforce
  moreover have "p \<noteq> []"
  proof
    assume "p = []"
    with good have "is_solved ?c" by (simp add: good_solution_def)
    with two_moves_unsolved [OF m1 m2 indep] show False by simp
  qed
  moreover have "length p \<noteq> 1"
  proof
    assume "length p = 1"
    then obtain m3 where p3: "p = [m3]" by (cases p) simp_all
    with good have "m3 \<in> set moves" and "is_solved (apply_move ?c m3 False)"
      by (simp_all add: good_solution_def replay_def)
    with three_moves_unsolved [OF m1 m2 _ indep] show False by blast
  qed
  ultimately have "length p = 2" by (cases p) (auto simp: le_Suc_eq numeral_2_eq_2)
  with p show ?thesis by blast
qed

lemma solve_bfs_F:
  "solve_bfs (\<lambda>_. False) (apply_move init_cube ''F'' True) 1 = Some [[CHR ''F'', CHR 0x27]]"
  by (simp add: solve_bfs_def moves_def copy_id Let_def max_nodes_def
        init_cube_mk apply_move_mk is_solved_mk get_state_string_mk)

section \<open>The claims about the solver\<close>

text \<open>
  C4: when \<open>solve_bfs\<close> returns a path for a 3-by-3 cube and a depth limit \<open>d\<close>, the path
  has at most \<open>d\<close> moves, replaying it gives a solved cube, and no canonical path with
  fewer moves solves the cube. When the time limit never fires, the search returns a path
  of one move after one canonical move from the solved cube, and a path of two moves after
  two canonical moves of which the second does not undo the first, whatever depth limit
  allows so many moves; the node budget does not stop these searches.
\<close>

theorem solve_bfs_returns_shortest_path:
  "(wf_cube c \<and> solve_bfs timed_out c d = Some p \<longrightarrow>
      length p \<le> d \<and> is_solved (replay c p) \<and>
      (\<forall>q. set q \<subseteq> set moves \<longrightarrow> is_solved (replay c q) \<longrightarrow> length p \<le> length q)) \<and>
   ((\<forall>n. \<not> clock n) \<and> m \<in> set moves \<and> 1 \<le> d1 \<longrightarrow>
      (\<exists>p. solve_bfs clock (apply_move init_cube m t) d1 = Some p \<and> length p = 1)) \<and>
   ((\<forall>n. \<not> clock n) \<and> m1 \<in> set moves \<and> m2 \<in> set moves \<and> m2 \<noteq> get_reverse_move m1 \<and>
    2 \<le> d2 \<longrightarrow>
      (\<exists>p. solve_bfs clock (apply_move (apply_move init_cube m1 t1) m2 t2) d2 = Some p \<and>
           length p = 2))"
proof (intro conjI impI)
  assume a: "wf_cube c \<and> solve_bfs timed_out c d = Some p"
  then have good: "good_solution c d p" by (blast intro: solve_bfs_sound)
  then show "length p \<le> d" and "is_solved (replay c p)"
    by (simp_all add: good_solution_def)
  from good show "\<forall>q. set q \<subseteq> set moves \<longrightarrow> is_solved (replay c q) \<longrightarrow> length p \<le> length q"
    by (simp add: good_solution_def canonical_def)
next
  assume "(\<forall>n. \<not> clock n) \<and> m \<in> set moves \<and> 1 \<le> d1"
  then show "\<exists>p. solve_bfs clock (apply_move init_cube m t) d1 = Some p \<and> length p = 1"
    by (elim conjE) (rule solve_bfs_one_move; assumption)
next
  assume "(\<forall>n. \<not> clock n) \<and> m1 \<in> set moves \<and> m2 \<in> set moves \<and>
    m2 \<noteq> get_reverse_move m1 \<and> 2 \<le> d2"
  then show "\<exists>p. solve_bfs clock (apply_move (apply_move init_cube m1 t1) m2 t2) d2 = Some p \<and>
           length p = 2"
    by (elim conjE) (rule solve_bfs_two_moves; assumption)
qed

theorem solve_bfs_returns_shortest_path_witness:
  "wf_cube (apply_move init_cube ''F'' True) \<and>
   solve_bfs (\<lambda>_. False) (apply_move init_cube ''F'' True) 1 = Some [[CHR ''F'', CHR 0x27]] \<and>
   length [[CHR ''F'', CHR 0x27]] \<le> (1 :: nat) \<and>
   is_solved (replay (apply_move init_cube ''F'' True) [[CHR ''F'', CHR 0x27]]) \<and>
   ''U'' \<in> set moves \<and> ''R'' \<in> set moves \<and> ''R'' \<noteq> get_reverse_move ''U'' \<and>
   (\<exists>p. solve_bfs (\<lambda>_. False) (apply_move init_cube ''U'' True) 8 = Some p \<and> length p = 1) \<and>
   (\<exists>p. solve_bfs (\<lambda>_. False) (apply_move (apply_move init_cube ''U'' True) ''R'' True) 8
          = Some p \<and> length p = 2)"
proof -
  have w: "wf_cube (apply_move init_cube ''F'' True)" by (rule wf_apply_move [OF wf_init_cube])
  have mU: "''U'' \<in> set moves" and mR: "''R'' \<in> set moves" by (simp_all add: moves_def)
  have ind: "''R'' \<noteq> get_reverse_move ''U''" by (simp add: get_reverse_move_moves)
  note T = solve_bfs_returns_shortest_path [of "apply_move init_cube ''F'' True" "\<lambda>_. False" 1
      "[[CHR ''F'', CHR 0x27]]" "\<lambda>_. False" "''U''" 8 True "''U''" "''R''" 8 True True]
  from T w solve_bfs_F mU mR ind show ?thesis by simp
qed

text \<open>
  C2: when \<open>solve_cube\<close> returns a non-empty list of moves for a 3-by-3 cube, whichever
  method found it, replaying the moves on a copy of the cube gives a solved cube.
\<close>

theorem solve_cube_solution_replays_to_solved:
  "wf_cube c \<Longrightarrow> solve_cube kociemba_available kociemba_solve timed_out c = Inr p \<Longrightarrow>
   p \<noteq> [] \<Longrightarrow> is_solved (replay (copy c) p)"
  by (rule solve_cube_sound)

theorem solve_cube_solution_replays_to_solved_witness:
  "wf_cube (apply_move (apply_move init_cube ''F'' True) ''R'' True) \<and>
   solve_cube False (\<lambda>_. Inl (Exception [])) (\<lambda>_ _. False)
     (apply_move (apply_move init_cube ''F'' True) ''R'' True)
     = Inr [[CHR ''R'', CHR 0x27], [CHR ''F'', CHR 0x27]] \<and>
   is_solved (replay (copy (apply_move (apply_move init_cube ''F'' True) ''R'' True))
     [[CHR ''R'', CHR 0x27], [CHR ''F'', CHR 0x27]])"
proof -
  let ?c = "apply_move (apply_move init_cube ''F'' True) ''R'' True"
  have w: "wf_cube ?c" by (intro wf_apply_move wf_init_cube)
  have ns: "\<not> is_solved ?c"
    by (rule two_moves_unsolved) (simp_all add: moves_def get_reverse_move_moves)
  have pr: "perfect_reverse ?c = Some [[CHR ''R'', CHR 0x27], [CHR ''F'', CHR 0x27]]"
    using scenario_F_R by (simp add: perfect_reverse_def copy_id Let_def)
  have s: "solve_cube False (\<lambda>_. Inl (Exception [])) (\<lambda>_ _. False) ?c
      = Inr [[CHR ''R'', CHR 0x27], [CHR ''F'', CHR 0x27]]"
    by (simp add: solve_cube_def ns pr)
  from solve_cube_solution_replays_to_solved [OF w s] w s show ?thesis by simp
qed

section \<open>What the solver changes in the store\<close>

subsection \<open>The relation between stores\<close>

lemma keeps_refl [simp]: "keeps m n h h"
  by (simp add: keeps_def)

lemma keeps_trans: "keeps m n h h1 \<Longrightarrow> keeps m n h1 h2 \<Longrightarrow> keeps m n h h2"
  by (simp add: keeps_def)

lemma keeps_mono: "keeps m n h h' \<Longrightarrow> m' \<le> m \<Longrightarrow> n' \<le> n \<Longrightarrow> keeps m' n' h h'"
  by (simp add: keeps_def)

lemma keeps_next: "keeps m n h h' \<Longrightarrow> next_addr h \<le> next_addr h'"
  by (simp add: keeps_def)

text \<open>Steps that keep what exists when they start compose.\<close>

lemma keeps_step:
  assumes "keeps (next_addr h) n h h1" "keeps (next_addr h1) n h1 h2"
  shows "keeps (next_addr h) n h h2"
proof -
  from assms(1) have "next_addr h \<le> next_addr h1" by (rule keeps_next)
  with assms(2) have "keeps (next_addr h) n h1 h2" by (simp add: keeps_mono)
  with assms(1) show ?thesis by (rule keeps_trans)
qed

lemma allocated_keeps:
  assumes "allocated h x" "keeps (next_addr h) n h h'"
  shows "allocated h' x" "faces_ref h' x = faces_ref h x" "history_ref h' x = history_ref h x"
    "face_rows h' x f = face_rows h x f"
proof -
  from assms have c: "cubes h' x = cubes h x"
    by (simp add: allocated_def keeps_def)
  then show fr: "faces_ref h' x = faces_ref h x" and "history_ref h' x = history_ref h x"
    by (simp_all add: faces_ref_def history_ref_def)
  from assms have d: "dicts h' (faces_ref h x) = dicts h (faces_ref h x)"
    by (simp add: allocated_def keeps_def)
  from assms have g: "grids h' (dicts h (faces_ref h x) f) = grids h (dicts h (faces_ref h x) f)"
    for f by (simp add: allocated_def keeps_def)
  from fr d g show "face_rows h' x f = face_rows h x f" by (simp add: face_rows_def)
  from assms fr d show "allocated h' x"
    unfolding allocated_def keeps_def by (metis less_le_trans)
qed

lemma owned_keeps: "owned n h x \<Longrightarrow> keeps (next_addr h) n' h h' \<Longrightarrow> owned n h' x"
  unfolding owned_def using allocated_keeps by metis

lemma owned_mono: "owned n h x \<Longrightarrow> n' \<le> n \<Longrightarrow> owned n' h x"
  unfolding owned_def by (meson le_trans)

lemma valid_cube_stays:
  assumes "valid_cube h x" "keeps (next_addr h) n h h'"
  shows "valid_cube h' x"
proof -
  from assms(1) have al: "allocated h x" by (simp add: valid_cube_def)
  note k = allocated_keeps [OF al assms(2)]
  from assms(2) have le: "next_addr h \<le> next_addr h'" by (rule keeps_next)
  from assms(1) k le show "valid_cube h' x"
    unfolding valid_cube_def by (metis less_le_trans)
qed

lemma valid_cube_keeps:
  assumes "valid_cube h x" "keeps (next_addr h) (next_addr h) h h'"
  shows "cube_of h' x = cube_of h x"
proof -
  from assms(1) have al: "allocated h x" by (simp add: valid_cube_def)
  note k = allocated_keeps [OF al assms(2)]
  from assms have hh: "hists h' (history_ref h x) = hists h (history_ref h x)"
    by (simp add: valid_cube_def keeps_def)
  have m: "(\<lambda>f. map (rows h') (face_rows h x f)) = (\<lambda>f. map (rows h) (face_rows h x f))"
    using assms by (intro ext map_cong) (auto simp: valid_cube_def keeps_def)
  show "cube_of h' x = cube_of h x"
    by (simp only: cube_of_def k m hh)
qed

subsection \<open>Moves change the rows and the history of their cube only\<close>

lemma set_cell_keeps:
  assumes "owned n h0 x" "keeps (next_addr h0) n h0 h"
  shows "keeps (next_addr h0) n h0 (set_cell_st h x f r c v)"
proof (cases "r < length (face_rows h x f)")
  case False
  with assms(2) show ?thesis by (simp add: set_cell_st_def)
next
  case True
  from owned_keeps [OF assms] have "owned n h x" .
  with nth_mem [OF True] have "n \<le> face_rows h x f ! r" by (auto simp: owned_def)
  then have "keeps (next_addr h0) n h (set_cell_st h x f r c v)"
    using True by (simp add: set_cell_st_def keeps_def)
  with assms(2) show ?thesis by (rule keeps_trans)
qed

lemma fold_set_cell_row_keeps:
  assumes "owned n h0 x"
  shows "keeps (next_addr h0) n h0 h \<Longrightarrow>
         keeps (next_addr h0) n h0 (fold (\<lambda>(i, val) h. set_cell_st h x f r i val) ps h)"
  by (induction ps arbitrary: h) (auto simp: set_cell_keeps [OF assms])

lemma fold_set_cell_col_keeps:
  assumes "owned n h0 x"
  shows "keeps (next_addr h0) n h0 h \<Longrightarrow>
         keeps (next_addr h0) n h0 (fold (\<lambda>(i, val) h. set_cell_st h x f i c val) ps h)"
  by (induction ps arbitrary: h) (auto simp: set_cell_keeps [OF assms])

lemma set_row_keeps:
  "owned n h0 x \<Longrightarrow> keeps (next_addr h0) n h0 h \<Longrightarrow>
   keeps (next_addr h0) n h0 (set_row_st h x f i vs)"
  unfolding set_row_st_def by (rule fold_set_cell_row_keeps)

lemma set_col_keeps:
  "owned n h0 x \<Longrightarrow> keeps (next_addr h0) n h0 h \<Longrightarrow>
   keeps (next_addr h0) n h0 (set_col_st h x f i vs)"
  unfolding set_col_st_def by (rule fold_set_cell_col_keeps)

lemma rotate_face_clockwise_keeps:
  assumes "owned n h0 x" "keeps (next_addr h0) n h0 h"
  shows "keeps (next_addr h0) n h0 (rotate_face_clockwise_st h x f)"
  unfolding rotate_face_clockwise_st_def Let_def upt3
  using assms by (simp add: set_cell_keeps)

lemma rotate_face_counterclockwise_keeps:
  assumes "owned n h0 x" "keeps (next_addr h0) n h0 h"
  shows "keeps (next_addr h0) n h0 (rotate_face_counterclockwise_st h x f)"
  unfolding rotate_face_counterclockwise_st_def upt3
  using assms by (simp add: rotate_face_clockwise_keeps)

lemmas grid_keeps = set_row_keeps set_col_keeps rotate_face_clockwise_keeps
  rotate_face_counterclockwise_keeps

lemma call_rotation_keeps:
  assumes "owned n h0 x" "keeps (next_addr h0) n h0 h"
  shows "keeps (next_addr h0) n h0 (call_rotation_st r h x cw)"
proof (cases r)
  case Rotate_front
  show ?thesis unfolding Rotate_front call_rotation_st.simps rotate_front_st_def Let_def
    using assms by (auto intro!: grid_keeps)
next
  case Rotate_right
  show ?thesis unfolding Rotate_right call_rotation_st.simps rotate_right_st_def Let_def
    using assms by (auto intro!: grid_keeps)
next
  case Rotate_up
  show ?thesis unfolding Rotate_up call_rotation_st.simps rotate_up_st_def Let_def
    using assms by (auto intro!: grid_keeps)
next
  case Rotate_left
  show ?thesis unfolding Rotate_left call_rotation_st.simps rotate_left_st_def Let_def
    using assms by (auto intro!: grid_keeps)
next
  case Rotate_down
  show ?thesis unfolding Rotate_down call_rotation_st.simps rotate_down_st_def Let_def
    using assms by (auto intro!: grid_keeps)
next
  case Rotate_back
  show ?thesis unfolding Rotate_back call_rotation_st.simps rotate_back_st_def Let_def
    using assms by (auto intro!: grid_keeps)
qed

lemma append_history_keeps:
  assumes "owned n h0 x" "keeps (next_addr h0) n h0 h"
  shows "keeps (next_addr h0) n h0 (append_history_st h x m)"
proof -
  from owned_keeps [OF assms] have "n \<le> history_ref h x" by (simp add: owned_def)
  then have "keeps (next_addr h0) n h (append_history_st h x m)"
    by (simp add: append_history_st_def keeps_def)
  with assms(2) show ?thesis by (rule keeps_trans)
qed

lemma apply_move_keeps:
  assumes "owned n h0 x" "keeps (next_addr h0) n h0 h"
  shows "keeps (next_addr h0) n h0 (apply_move_st h x m t)"
  using assms
  by (auto simp: apply_move_st_def Let_def call_rotation_keeps append_history_keeps
        split: option.splits)

lemma replay_keeps:
  assumes "owned n h0 x"
  shows "keeps (next_addr h0) n h0 h \<Longrightarrow> keeps (next_addr h0) n h0 (replay_st h x sol)"
  unfolding replay_st_def
  by (induction sol arbitrary: h) (simp_all add: apply_move_keeps [OF assms])

subsection \<open>New objects are new\<close>

lemma alloc_rows_props:
  "alloc_rows h g = (as, h') \<Longrightarrow>
   next_addr h \<le> next_addr h' \<and> grids h' = grids h \<and> dicts h' = dicts h \<and>
   cubes h' = cubes h \<and> hists h' = hists h \<and> (\<forall>a < next_addr h. rows h' a = rows h a) \<and>
   (\<forall>a \<in> set as. next_addr h \<le> a \<and> a < next_addr h')"
proof (induction g arbitrary: h as h')
  case Nil
  then show ?case by simp
next
  case (Cons r rs)
  obtain as' h1 where rec: "alloc_rows (snd (alloc_row h r)) rs = (as', h1)"
    by (cases "alloc_rows (snd (alloc_row h r)) rs")
  with Cons.prems have eq: "as = next_addr h # as'" "h' = h1"
    by (simp_all add: alloc_row_def split: prod.splits)
  from Cons.IH [OF rec] show ?case
    unfolding eq by (auto simp: alloc_row_def)
qed

lemma new_grid_props:
  assumes "new_grid h g = (a, h')"
  shows "next_addr h \<le> a" "a < next_addr h'" "dicts h' = dicts h" "cubes h' = cubes h"
    "hists h' = hists h" "\<forall>b < next_addr h. rows h' b = rows h b"
    "\<forall>b. b \<noteq> a \<longrightarrow> grids h' b = grids h b"
    "\<forall>b \<in> set (grids h' a). next_addr h \<le> b \<and> b < next_addr h'"
proof -
  obtain as h1 where rec: "alloc_rows h g = (as, h1)" by (cases "alloc_rows h g")
  with assms have eq: "a = next_addr h1"
    "h' = h1\<lparr>grids := (grids h1)(next_addr h1 := as), next_addr := Suc (next_addr h1)\<rparr>"
    by (auto simp: new_grid_def alloc_grid_def)
  note p = alloc_rows_props [OF rec]
  from p show "next_addr h \<le> a" "a < next_addr h'" "dicts h' = dicts h" "cubes h' = cubes h"
    "hists h' = hists h" "\<forall>b < next_addr h. rows h' b = rows h b"
    "\<forall>b. b \<noteq> a \<longrightarrow> grids h' b = grids h b"
    by (simp_all add: eq)
  from p show "\<forall>b \<in> set (grids h' a). next_addr h \<le> b \<and> b < next_addr h'"
    by (auto simp: eq)
qed

lemma new_grid_keeps:
  assumes "new_grid h g = (a, h')"
  shows "keeps (next_addr h) (next_addr h) h h'"
  using new_grid_props [OF assms] unfolding keeps_def by (auto simp: less_le_trans)

lemma new_grid_grid_ok:
  assumes "new_grid h g = (a, h')" "lo \<le> next_addr h"
  shows "grid_ok lo h' a" and "grid_ok lo h a0 \<Longrightarrow> grid_ok lo h' a0"
proof -
  note p = new_grid_props [OF assms(1)]
  from p(1,2,8) assms(2) show "grid_ok lo h' a" unfolding grid_ok_def by fastforce
  assume a0: "grid_ok lo h a0"
  with p(1) have "a0 \<noteq> a" by (auto simp: grid_ok_def)
  with p(7) have "grids h' a0 = grids h a0" by simp
  with a0 p(1,2) show "grid_ok lo h' a0" unfolding grid_ok_def by fastforce
qed

lemma building_owned: "building lo h c \<Longrightarrow> owned lo h c"
  unfolding building_def owned_def allocated_def grid_ok_def face_rows_def by auto

lemma building_valid: "building lo h c \<Longrightarrow> valid_cube h c"
  unfolding building_def valid_cube_def allocated_def grid_ok_def face_rows_def by auto

lemma grid_ok_grow:
  "grid_ok lo h a \<Longrightarrow> grids h' a = grids h a \<Longrightarrow> next_addr h \<le> next_addr h' \<Longrightarrow>
   grid_ok lo h' a"
  unfolding grid_ok_def by fastforce

lemma init_st_props:
  assumes "init_st h = (c, h')"
  shows "keeps (next_addr h) (next_addr h) h h'" and "building (next_addr h) h' c"
proof -
  let ?lo = "next_addr h"
  obtain a1 h1 where g1: "new_grid h (solved_faces FRONT) = (a1, h1)" by fastforce
  obtain a2 h2 where g2: "new_grid h1 (solved_faces BACK) = (a2, h2)" by fastforce
  obtain a3 h3 where g3: "new_grid h2 (solved_faces LEFT) = (a3, h3)" by fastforce
  obtain a4 h4 where g4: "new_grid h3 (solved_faces RIGHT) = (a4, h4)" by fastforce
  obtain a5 h5 where g5: "new_grid h4 (solved_faces UP) = (a5, h5)" by fastforce
  obtain a6 h6 where g6: "new_grid h5 (solved_faces DOWN) = (a6, h6)" by fastforce
  let ?D = "\<lambda>f. case f of FRONT \<Rightarrow> a1 | BACK \<Rightarrow> a2 | LEFT \<Rightarrow> a3
                           | RIGHT \<Rightarrow> a4 | UP \<Rightarrow> a5 | DOWN \<Rightarrow> a6"
  from assms have c: "c = Suc (Suc (next_addr h6))"
    and h': "h' = h6\<lparr>dicts := (dicts h6)(next_addr h6 := ?D),
                   hists := (hists h6)(Suc (next_addr h6) := []),
                   cubes := (cubes h6)(Suc (Suc (next_addr h6)) := (next_addr h6, Suc (next_addr h6))),
                   next_addr := Suc (Suc (Suc (next_addr h6)))\<rparr>"
    by (auto simp: init_st_def g1 g2 g3 g4 g5 g6 alloc_dict_def alloc_hist_def alloc_cube_def)
  have k1: "keeps ?lo ?lo h h1" by (rule new_grid_keeps [OF g1])
  have l1: "?lo \<le> next_addr h1" by (rule keeps_next [OF k1])
  have k2: "keeps ?lo ?lo h h2"
    by (rule keeps_trans [OF k1 keeps_mono [OF new_grid_keeps [OF g2] l1 l1]])
  have l2: "?lo \<le> next_addr h2" by (rule keeps_next [OF k2])
  have k3: "keeps ?lo ?lo h h3"
    by (rule keeps_trans [OF k2 keeps_mono [OF new_grid_keeps [OF g3] l2 l2]])
  have l3: "?lo \<le> next_addr h3" by (rule keeps_next [OF k3])
  have k4: "keeps ?lo ?lo h h4"
    by (rule keeps_trans [OF k3 keeps_mono [OF new_grid_keeps [OF g4] l3 l3]])
  have l4: "?lo \<le> next_addr h4" by (rule keeps_next [OF k4])
  have k5: "keeps ?lo ?lo h h5"
    by (rule keeps_trans [OF k4 keeps_mono [OF new_grid_keeps [OF g5] l4 l4]])
  have l5: "?lo \<le> next_addr h5" by (rule keeps_next [OF k5])
  have k6: "keeps ?lo ?lo h h6"
    by (rule keeps_trans [OF k5 keeps_mono [OF new_grid_keeps [OF g6] l5 l5]])
  have l6: "?lo \<le> next_addr h6" by (rule keeps_next [OF k6])
  from l6 have "keeps ?lo ?lo h6 h'" by (simp add: keeps_def h')
  with k6 show "keeps ?lo ?lo h h'" by (rule keeps_trans)
  have o1: "grid_ok ?lo h6 a1"
    by (intro new_grid_grid_ok(2) [OF g6 l5] new_grid_grid_ok(2) [OF g5 l4]
          new_grid_grid_ok(2) [OF g4 l3] new_grid_grid_ok(2) [OF g3 l2]
          new_grid_grid_ok(2) [OF g2 l1] new_grid_grid_ok(1) [OF g1 le_refl])
  have o2: "grid_ok ?lo h6 a2"
    by (intro new_grid_grid_ok(2) [OF g6 l5] new_grid_grid_ok(2) [OF g5 l4]
          new_grid_grid_ok(2) [OF g4 l3] new_grid_grid_ok(2) [OF g3 l2]
          new_grid_grid_ok(1) [OF g2 l1])
  have o3: "grid_ok ?lo h6 a3"
    by (intro new_grid_grid_ok(2) [OF g6 l5] new_grid_grid_ok(2) [OF g5 l4]
          new_grid_grid_ok(2) [OF g4 l3] new_grid_grid_ok(1) [OF g3 l2])
  have o4: "grid_ok ?lo h6 a4"
    by (intro new_grid_grid_ok(2) [OF g6 l5] new_grid_grid_ok(2) [OF g5 l4]
          new_grid_grid_ok(1) [OF g4 l3])
  have o5: "grid_ok ?lo h6 a5"
    by (intro new_grid_grid_ok(2) [OF g6 l5] new_grid_grid_ok(1) [OF g5 l4])
  have o6: "grid_ok ?lo h6 a6"
    by (rule new_grid_grid_ok(1) [OF g6 l5])
  have gr: "grids h' = grids h6" and nx: "next_addr h6 \<le> next_addr h'" by (simp_all add: h')
  have ok: "grid_ok ?lo h' (?D f)" for f
    by (cases f) (simp_all add: grid_ok_grow [OF _ _ nx] gr o1 o2 o3 o4 o5 o6)
  have fr: "faces_ref h' c = next_addr h6" and hr: "history_ref h' c = Suc (next_addr h6)"
    and di: "dicts h' (next_addr h6) = ?D"
    by (simp_all add: faces_ref_def history_ref_def h' c)
  show "building ?lo h' c"
    unfolding building_def fr hr di using l6 ok by (simp add: c h')
qed

lemma copy_face_props:
  assumes b: "building lo h c"
  shows "keeps lo lo h (copy_face_st x c f h)" and "building lo (copy_face_st x c f h) c"
proof -
  obtain g h1 where g: "new_grid h (map (rows h) (face_rows h x f)) = (g, h1)" by fastforce
  let ?r = "set_face_st h1 c f g"
  have r: "copy_face_st x c f h = ?r" by (simp add: copy_face_st_def g)
  note p = new_grid_props [OF g]
  from b have lo: "lo \<le> next_addr h" by (simp add: building_def)
  from p(4) have fr: "faces_ref h1 c = faces_ref h c" and hr: "history_ref h1 c = history_ref h c"
    by (simp_all add: faces_ref_def history_ref_def)
  have k1: "keeps lo lo h h1" by (rule keeps_mono [OF new_grid_keeps [OF g] lo lo])
  from b have "keeps lo lo h1 ?r"
    by (simp add: keeps_def set_face_st_def fr building_def)
  with k1 show "keeps lo lo h (copy_face_st x c f h)" unfolding r by (rule keeps_trans)
  have ok: "grid_ok lo ?r (dicts ?r (faces_ref h c) f')" for f'
  proof (cases "f' = f")
    case True
    from new_grid_grid_ok(1) [OF g lo] have "grid_ok lo h1 g" .
    then show ?thesis using True by (simp add: grid_ok_def set_face_st_def fr)
  next
    case False
    from b have "grid_ok lo h (dicts h (faces_ref h c) f')" by (simp add: building_def)
    from new_grid_grid_ok(2) [OF g lo this] have "grid_ok lo h1 (dicts h (faces_ref h c) f')" .
    then show ?thesis using False p(3) by (simp add: grid_ok_def set_face_st_def fr)
  qed
  have "faces_ref ?r c = faces_ref h c" "history_ref ?r c = history_ref h c"
    "next_addr ?r = next_addr h1"
    using fr hr by (simp_all add: set_face_st_def faces_ref_def history_ref_def)
  with b ok keeps_next [OF k1] p(1,2) show "building lo (copy_face_st x c f h) c"
    unfolding r building_def by auto
qed

lemma fold_copy_face_props:
  "building lo h c \<Longrightarrow>
   keeps lo lo h (fold (copy_face_st x c) fs h) \<and> building lo (fold (copy_face_st x c) fs h) c"
proof (induction fs arbitrary: h)
  case Nil
  then show ?case by simp
next
  case (Cons f fs)
  note a = copy_face_props [OF Cons.prems, of x f]
  note ih = Cons.IH [OF a(2)]
  from keeps_trans [OF a(1) conjunct1 [OF ih]] conjunct2 [OF ih]
  show ?case by simp
qed

text \<open>A copy is made of new objects only: it keeps the store, and the copy is owned.\<close>

lemma copy_st_props:
  assumes "copy_st h x = (c, h')"
  shows "keeps (next_addr h) (next_addr h) h h'" and "owned (next_addr h) h' c"
proof -
  let ?lo = "next_addr h"
  obtain c0 h1 where i: "init_st h = (c0, h1)" by fastforce
  define h2 where "h2 = fold (copy_face_st x c0) [FRONT, BACK, LEFT, RIGHT, UP, DOWN] h1"
  define h3 where "h3 = h2\<lparr>hists := (hists h2)(next_addr h2 := hists h2 (history_ref h2 x)),
                  next_addr := Suc (next_addr h2)\<rparr>"
  from assms have c: "c = c0" and h': "h' = set_history_st h3 c0 (next_addr h2)"
    by (auto simp: copy_st_def i Let_def alloc_hist_def h2_def h3_def)
  note ip = init_st_props [OF i]
  note fp = fold_copy_face_props [OF ip(2), of x "[FRONT, BACK, LEFT, RIGHT, UP, DOWN]"]
  from fp have b2: "building ?lo h2 c0" and k2: "keeps ?lo ?lo h1 h2"
    unfolding h2_def by blast+
  from b2 have lo2: "?lo \<le> next_addr h2" by (simp add: building_def)
  from b2 lo2 have k3: "keeps ?lo ?lo h2 h'"
    unfolding h' h3_def by (simp add: keeps_def set_history_st_def building_def)
  from keeps_trans [OF keeps_trans [OF ip(1) k2] k3]
  show "keeps ?lo ?lo h h'" .
  have fr: "faces_ref h' c0 = faces_ref h2 c0" and hr: "history_ref h' c0 = next_addr h2"
    and di: "dicts h' = dicts h2" and gr: "grids h' = grids h2"
    and nx: "next_addr h' = Suc (next_addr h2)"
    unfolding h' h3_def by (simp_all add: set_history_st_def faces_ref_def history_ref_def)
  from b2 lo2 have "building ?lo h' c0"
    unfolding building_def grid_ok_def fr hr di gr nx by (auto simp: less_Suc_eq)
  then show "owned ?lo h' c" unfolding c by (rule building_owned)
qed

subsection \<open>The solver changes new objects only\<close>

lemma copy_st_ok:
  assumes "copy_st h x = (c, h')" "n \<le> next_addr h"
  shows "keeps (next_addr h) n h h'" and "owned n h' c"
  using copy_st_props [OF assms(1)] assms(2) by (auto intro: keeps_mono owned_mono)

lemma verify_st_ok:
  assumes "n \<le> next_addr h"
  shows "keeps (next_addr h) n h (snd (verify_st h cube sol))"
proof -
  obtain t h1 where c: "copy_st h cube = (t, h1)" by fastforce
  note cp = copy_st_ok [OF c assms]
  from replay_keeps [OF cp(2) keeps_refl]
  have "keeps (next_addr h1) n h1 (replay_st h1 t sol)" .
  with cp(1) have "keeps (next_addr h) n h (replay_st h1 t sol)" by (rule keeps_step)
  then show ?thesis by (simp add: verify_st_def c Let_def)
qed

lemma perfect_reverse_st_ok:
  "n \<le> next_addr h \<Longrightarrow> keeps (next_addr h) n h (snd (perfect_reverse_st h cube))"
  by (simp add: perfect_reverse_st_def Let_def verify_st_ok)

lemma kociemba_method_st_ok:
  "n \<le> next_addr h \<Longrightarrow> keeps (next_addr h) n h (snd (kociemba_method_st a ks h cube))"
  by (simp add: kociemba_method_st_def verify_st_ok case_prod_beta
      split: option.splits sum.splits)

lemma try_moves_st_ok:
  "n \<le> next_addr h \<Longrightarrow> keeps (next_addr h) n h (snd (try_moves_st h cur ms rest Q V))"
proof (induction rest arbitrary: h Q V)
  case Nil
  then show ?case by simp
next
  case (Cons m rest)
  obtain c h1 where c: "copy_st h cur = (c, h1)" by fastforce
  note cp = copy_st_ok [OF c Cons.prems]
  let ?h2 = "apply_move_st h1 c m False"
  from apply_move_keeps [OF cp(2) keeps_refl] have "keeps (next_addr h1) n h1 ?h2" .
  with cp(1) have k2: "keeps (next_addr h) n h ?h2" by (rule keeps_step)
  from keeps_next [OF k2] Cons.prems have n2: "n \<le> next_addr ?h2" by simp
  from Cons.IH [OF n2] have "keeps (next_addr h) n h (snd (try_moves_st ?h2 cur ms rest Q' V'))"
    for Q' V' by (rule keeps_step [OF k2])
  with k2 show ?case by (simp add: c Let_def)
qed

lemma bfs_loop_st_ok:
  "n \<le> next_addr h \<Longrightarrow> keeps (next_addr h) n h (snd (bfs_loop_st timed_out d h Q V k))"
proof (induction timed_out d h Q V k rule: bfs_loop_st.induct)
  case (1 timed_out max_depth h visited nodes_explored)
  then show ?case by simp
next
  case (2 timed_out max_depth h current_cube moves_so_far queue visited nodes_explored)
  show ?case
  proof (cases "timed_out nodes_explored \<or> max_nodes < nodes_explored")
    case True
    then show ?thesis by auto
  next
    case go: False
    show ?thesis
    proof (cases "max_depth \<le> length moves_so_far")
      case True
      with go "2.IH"(1) "2.prems" show ?thesis by simp
    next
      case False
      obtain r h1 where t: "try_moves_st h current_cube moves_so_far moves queue visited = (r, h1)"
        by fastforce
      from try_moves_st_ok [OF "2.prems", of current_cube moves_so_far moves queue visited] t
      have k1: "keeps (next_addr h) n h h1" by simp
      from keeps_next [OF k1] "2.prems" have n1: "n \<le> next_addr h1" by simp
      show ?thesis
      proof (cases r)
        case (Inl sol)
        with go False t k1 show ?thesis by simp
      next
        case (Inr qv)
        obtain Q' V' where qv: "qv = (Q', V')" by (cases qv)
        from go have g1: "\<not> timed_out nodes_explored" and g2: "\<not> max_nodes < nodes_explored"
          by simp_all
        have "keeps (next_addr h1) n h1
                (snd (bfs_loop_st timed_out max_depth h1 Q' V' (nodes_explored + 1)))"
          by (rule "2.IH"(2) [OF g1 g2 False t [symmetric]]) (simp_all add: Inr qv n1)
        with k1 have "keeps (next_addr h) n h
                (snd (bfs_loop_st timed_out max_depth h1 Q' V' (nodes_explored + 1)))"
          by (rule keeps_step)
        with go False t Inr qv show ?thesis by simp
      qed
    qed
  qed
qed

lemma solve_bfs_st_ok:
  assumes "n \<le> next_addr h"
  shows "keeps (next_addr h) n h (snd (solve_bfs_st timed_out h cube d))"
proof (cases "is_solved (cube_of h cube)")
  case True
  then show ?thesis by (simp add: solve_bfs_st_def)
next
  case False
  obtain s h1 where c: "copy_st h cube = (s, h1)" by fastforce
  note cp = copy_st_ok [OF c assms]
  from keeps_next [OF cp(1)] assms have "n \<le> next_addr h1" by simp
  from keeps_step [OF cp(1) bfs_loop_st_ok [OF this]] False
  show ?thesis by (simp add: solve_bfs_st_def c del: bfs_loop_st.simps)
qed

lemma bfs_depths_st_ok:
  "n \<le> next_addr h \<Longrightarrow> keeps (next_addr h) n h (snd (bfs_depths_st timed_out h cube ds))"
proof (induction ds arbitrary: h)
  case Nil
  then show ?case by simp
next
  case (Cons d ds)
  obtain r h1 where s: "solve_bfs_st (timed_out d) h cube d = (r, h1)" by fastforce
  from solve_bfs_st_ok [OF Cons.prems, of "timed_out d" cube d] s
  have k1: "keeps (next_addr h) n h h1" by simp
  from keeps_next [OF k1] Cons.prems have "n \<le> next_addr h1" by simp
  from keeps_step [OF k1 Cons.IH [OF this]] k1 s
  show ?case by (simp split: option.splits)
qed

lemma solve_cube_st_ok:
  assumes "n \<le> next_addr h"
  shows "keeps (next_addr h) n h (snd (solve_cube_st a ks timed_out h cube))"
proof -
  obtain r1 h1 where p: "perfect_reverse_st h cube = (r1, h1)" by fastforce
  obtain r2 h2 where k: "kociemba_method_st a ks h1 cube = (r2, h2)" by fastforce
  from perfect_reverse_st_ok [OF assms, of cube] p
  have k1: "keeps (next_addr h) n h h1" by simp
  from keeps_next [OF k1] assms have n1: "n \<le> next_addr h1" by simp
  from kociemba_method_st_ok [OF n1, of a ks cube] k
  have "keeps (next_addr h1) n h1 h2" by simp
  with k1 have k2: "keeps (next_addr h) n h h2" by (rule keeps_step)
  from keeps_next [OF k2] assms have n2: "n \<le> next_addr h2" by simp
  from keeps_step [OF k2 bfs_depths_st_ok [OF n2]] k1 k2 p k
  show ?thesis
    by (simp add: solve_cube_st_def case_prod_beta split: option.splits sum.splits)
qed

lemma init_st_valid: "init_st h = (c, h') \<Longrightarrow> valid_cube h' c"
  by (rule building_valid [OF init_st_props(2)])

lemma apply_move_st_valid:
  assumes "valid_cube h x"
  shows "valid_cube (apply_move_st h x m t) x"
proof -
  from assms have "owned 0 h x" by (simp add: owned_def valid_cube_def)
  from apply_move_keeps [OF this keeps_refl] have "keeps (next_addr h) 0 h (apply_move_st h x m t)" .
  with assms show ?thesis by (rule valid_cube_stays)
qed

section \<open>The claim about the store\<close>

text \<open>
  C9: a call of \<open>solve_cube\<close> on a cube whose parts exist leaves the cube as it was, grid
  and history, whether the call returns a list of moves or an exception of the external
  solver leaves it; indeed every object that existed before the call is the same after
  it: the solver and its searches write to the copies that they make, and a copy shares
  no list with the cube it was made from.
\<close>

theorem solve_cube_leaves_cube_unchanged:
  "valid_cube h cube \<Longrightarrow>
   solve_cube_st kociemba_available kociemba_solve timed_out h cube = (r, h') \<Longrightarrow>
   cube_of h' cube = cube_of h cube \<and> keeps (next_addr h) (next_addr h) h h'"
proof -
  assume v: "valid_cube h cube"
    and s: "solve_cube_st kociemba_available kociemba_solve timed_out h cube = (r, h')"
  from solve_cube_st_ok [OF le_refl, of h kociemba_available kociemba_solve timed_out cube] s
  have k: "keeps (next_addr h) (next_addr h) h h'" by simp
  from valid_cube_keeps [OF v k] k
  show "cube_of h' cube = cube_of h cube \<and> keeps (next_addr h) (next_addr h) h h'" by simp
qed

theorem solve_cube_leaves_cube_unchanged_witness:
  "valid_cube (apply_move_st (snd (init_st empty_store)) (fst (init_st empty_store)) ''F'' True)
     (fst (init_st empty_store)) \<and>
   cube_of (snd (solve_cube_st False (\<lambda>_. Inl (Exception [])) (\<lambda>_ _. False)
       (apply_move_st (snd (init_st empty_store)) (fst (init_st empty_store)) ''F'' True)
       (fst (init_st empty_store))))
     (fst (init_st empty_store))
   = cube_of (apply_move_st (snd (init_st empty_store)) (fst (init_st empty_store)) ''F'' True)
       (fst (init_st empty_store))"
proof -
  let ?c = "fst (init_st empty_store)"
  let ?h = "apply_move_st (snd (init_st empty_store)) ?c ''F'' True"
  have "valid_cube (snd (init_st empty_store)) ?c"
    by (rule init_st_valid) simp
  then have v: "valid_cube ?h ?c" by (rule apply_move_st_valid)
  from solve_cube_leaves_cube_unchanged [OF v surjective_pairing] v
  show ?thesis by blast
qed

end
